theory Spec2Isabelle
  imports Main
begin

section \<open>Parsed documents and the Python primitives the validator uses\<close>

text \<open>
  The validator of \<^verbatim>\<open>complete_cyclonedx_validation.py\<close> works on the tree that
  \<^verbatim>\<open>json.load\<close> returns: \<^verbatim>\<open>None\<close>, booleans, integers, strings, lists and
  dictionaries. A dictionary is an association list read with \<open>map_of\<close> (the first
  binding of a key is the dictionary's). Numbers with a fraction or an exponent are not
  part of the model.
\<close>

datatype json =
    JNull
  | JBool bool
  | JInt int
  | JStr string
  | JArr "json list"
  | JObj "(string \<times> json) list"

text \<open>The exceptions that leave the validator (a \<^verbatim>\<open>ValueError\<close> is always caught).\<close>

datatype error = TypeError | AttributeError | KeyError

type_synonym 'a res = "error + 'a"

definition bind_r :: "'a res \<Rightarrow> ('a \<Rightarrow> 'b res) \<Rightarrow> 'b res" where
  "bind_r m f = (case m of Inl e \<Rightarrow> Inl e | Inr x \<Rightarrow> f x)"

text \<open>\<^verbatim>\<open>k in s\<close> on two strings: \<open>k\<close> occurs in \<open>s\<close> as a contiguous piece.\<close>

fun str_contains :: "string \<Rightarrow> string \<Rightarrow> bool" where
  "str_contains k [] = (k = [])"
| "str_contains k (c # cs) = (take (length k) (c # cs) = k \<or> str_contains k cs)"

text \<open>The keys of a dictionary in insertion order.\<close>

fun dict_keys :: "(string \<times> json) list \<Rightarrow> string list" where
  "dict_keys [] = []"
| "dict_keys ((k, v) # kvs) = k # filter (\<lambda>x. x \<noteq> k) (dict_keys kvs)"

text \<open>\<^verbatim>\<open>"k" in x\<close>: key membership on a dictionary, element membership on a list,
  substring test on a string, \<^verbatim>\<open>TypeError\<close> on anything else.\<close>

fun py_in :: "string \<Rightarrow> json \<Rightarrow> bool res" where
  "py_in k (JObj kvs) = Inr (map_of kvs k \<noteq> None)"
| "py_in k (JArr xs) = Inr (JStr k \<in> set xs)"
| "py_in k (JStr s) = Inr (str_contains k s)"
| "py_in k JNull = Inl TypeError"
| "py_in k (JBool b) = Inl TypeError"
| "py_in k (JInt n) = Inl TypeError"

text \<open>\<^verbatim>\<open>x["k"]\<close> with a string subscript.\<close>

fun py_getitem :: "json \<Rightarrow> string \<Rightarrow> json res" where
  "py_getitem (JObj kvs) k = (case map_of kvs k of None \<Rightarrow> Inl KeyError | Some v \<Rightarrow> Inr v)"
| "py_getitem (JArr xs) k = Inl TypeError"
| "py_getitem (JStr s) k = Inl TypeError"
| "py_getitem JNull k = Inl TypeError"
| "py_getitem (JBool b) k = Inl TypeError"
| "py_getitem (JInt n) k = Inl TypeError"

text \<open>\<^verbatim>\<open>x.get("k", d)\<close>: only a dictionary has the method.\<close>

fun py_get :: "json \<Rightarrow> string \<Rightarrow> json \<Rightarrow> json res" where
  "py_get (JObj kvs) k d = Inr (case map_of kvs k of None \<Rightarrow> d | Some v \<Rightarrow> v)"
| "py_get (JArr xs) k d = Inl AttributeError"
| "py_get (JStr s) k d = Inl AttributeError"
| "py_get JNull k d = Inl AttributeError"
| "py_get (JBool b) k d = Inl AttributeError"
| "py_get (JInt n) k d = Inl AttributeError"

text \<open>What \<^verbatim>\<open>for i, x in enumerate(v)\<close> iterates over: the elements of a list, the
  keys of a dictionary, the characters of a string.\<close>

fun py_iter :: "json \<Rightarrow> json list res" where
  "py_iter (JArr xs) = Inr xs"
| "py_iter (JObj kvs) = Inr (map JStr (dict_keys kvs))"
| "py_iter (JStr s) = Inr (map (\<lambda>c. JStr [c]) s)"
| "py_iter JNull = Inl TypeError"
| "py_iter (JBool b) = Inl TypeError"
| "py_iter (JInt n) = Inl TypeError"

text \<open>\<^verbatim>\<open>x.startswith(p)\<close>: only a string has the method.\<close>

fun py_startswith :: "json \<Rightarrow> string \<Rightarrow> bool res" where
  "py_startswith (JStr s) p = Inr (take (length p) s = p)"
| "py_startswith (JArr xs) p = Inl AttributeError"
| "py_startswith (JObj kvs) p = Inl AttributeError"
| "py_startswith JNull p = Inl AttributeError"
| "py_startswith (JBool b) p = Inl AttributeError"
| "py_startswith (JInt n) p = Inl AttributeError"

text \<open>\<^verbatim>\<open>re.match(pattern, x)\<close> with the pattern's matcher \<open>m\<close>: a \<^verbatim>\<open>TypeError\<close>
  unless \<open>x\<close> is a string.\<close>

fun re_match :: "(string \<Rightarrow> bool) \<Rightarrow> json \<Rightarrow> bool res" where
  "re_match m (JStr s) = Inr (m s)"
| "re_match m (JArr xs) = Inl TypeError"
| "re_match m (JObj kvs) = Inl TypeError"
| "re_match m JNull = Inl TypeError"
| "re_match m (JBool b) = Inl TypeError"
| "re_match m (JInt n) = Inl TypeError"

fun isinstance_dict :: "json \<Rightarrow> bool" where
  "isinstance_dict (JObj kvs) = True"
| "isinstance_dict _ = False"

fun isinstance_list :: "json \<Rightarrow> bool" where
  "isinstance_list (JArr xs) = True"
| "isinstance_list _ = False"

fun isinstance_str :: "json \<Rightarrow> bool" where
  "isinstance_str (JStr s) = True"
| "isinstance_str _ = False"

text \<open>Decimal rendering of a loop index inside a path, as an f-string prints it.\<close>

definition digit_char :: "nat \<Rightarrow> char" where
  "digit_char d = char_of (48 + d)"

fun show_nat :: "nat \<Rightarrow> string" where
  "show_nat n = (if n < 10 then [digit_char n] else show_nat (n div 10) @ [digit_char (n mod 10)])"

declare show_nat.simps [simp del]

definition idx_path :: "string \<Rightarrow> nat \<Rightarrow> string" where
  "idx_path p i = p @ ''['' @ show_nat i @ '']''"

section \<open>Diagnostics\<close>

text \<open>
  The validator appends message strings to a list. Each constructor stands for one
  message template of the source; its arguments are the values the f-string prints
  (the path prefix, the version, an index, the offending value).
\<close>

text \<open>Document and metadata level (sections 1 and 2 of the main function).\<close>

datatype doc_issue =
    MissingRequiredField string
      \<comment> \<open>\<^verbatim>\<open>Missing required field: {field}\<close>\<close>
  | InvalidBomFormat json
      \<comment> \<open>\<^verbatim>\<open>Invalid bomFormat: {data.get('bomFormat')}\<close>\<close>
  | MissingSchema string
      \<comment> \<open>\<^verbatim>\<open>Missing $schema field (required in {version}+)\<close>\<close>
  | IncorrectSchema string
      \<comment> \<open>\<^verbatim>\<open>Incorrect $schema for {version}\<close>\<close>
  | SchemaNotAllowed string
      \<comment> \<open>\<^verbatim>\<open>$schema should not be present in {version}\<close>\<close>
  | InvalidSerialNumber
      \<comment> \<open>\<^verbatim>\<open>Invalid UUID format for serialNumber\<close>\<close>
  | InvalidTimestamp
      \<comment> \<open>\<^verbatim>\<open>Invalid ISO 8601 timestamp format\<close>\<close>
  | ToolsNotComponents string
      \<comment> \<open>\<^verbatim>\<open>Tools should use components structure in {version}+\<close>\<close>
  | ToolsNotArray string
      \<comment> \<open>\<^verbatim>\<open>Tools should be array in {version}\<close>\<close>
  | ToolMissingFields nat
      \<comment> \<open>\<^verbatim>\<open>Tool {i} missing required fields\<close>\<close>
  | LifecyclesNotAvailable string
      \<comment> \<open>\<^verbatim>\<open>Lifecycles not available in {version}\<close>\<close>
  | LifecycleMissingPhase nat
      \<comment> \<open>\<^verbatim>\<open>Lifecycle {i} missing phase\<close>\<close>
  | InvalidLifecyclePhase json
      \<comment> \<open>\<^verbatim>\<open>Invalid lifecycle phase: {lifecycle['phase']}\<close>\<close>

text \<open>Identifier graph, compositions and vulnerabilities (sections 3 to 7 of the main function).\<close>

datatype graph_issue =
    DuplicateBomRef json
      \<comment> \<open>\<^verbatim>\<open>Duplicate bom-ref: {component['bom-ref']}\<close>\<close>
  | DuplicateServiceBomRef json
      \<comment> \<open>\<^verbatim>\<open>Duplicate service bom-ref: {service['bom-ref']}\<close>\<close>
  | DependencyMissingRef nat
      \<comment> \<open>\<^verbatim>\<open>Dependency {i} missing required 'ref' field\<close>\<close>
  | DependencyRefNotFound nat json
      \<comment> \<open>\<^verbatim>\<open>Dependency {i} ref '{dep['ref']}' not found in bom-refs\<close>\<close>
  | DependsOnNotFound nat nat json
      \<comment> \<open>\<^verbatim>\<open>Dependency {i}.dependsOn[{j}] '{dep_ref}' not found\<close>\<close>
  | CompositionMissingAggregate nat
      \<comment> \<open>\<^verbatim>\<open>Composition {i} missing required 'aggregate' field\<close>\<close>
  | InvalidAggregate json
      \<comment> \<open>\<^verbatim>\<open>Invalid aggregate type: {comp['aggregate']}\<close>\<close>
  | VulnerabilitiesNotAvailable string
      \<comment> \<open>\<^verbatim>\<open>Vulnerabilities not available in {version}\<close>\<close>

text \<open>Fields of a component.\<close>

datatype component_issue =
    MissingTypeField string
      \<comment> \<open>\<^verbatim>\<open>{path} missing required 'type' field\<close>\<close>
  | InvalidType string json
      \<comment> \<open>\<^verbatim>\<open>{path} invalid type: {value}\<close>\<close>
  | MissingNameField string
      \<comment> \<open>\<^verbatim>\<open>{path} missing required 'name' field\<close>\<close>
  | MissingVersionField string
      \<comment> \<open>\<^verbatim>\<open>{path} missing required 'version' field in CycloneDX 1.3\<close>\<close>
  | SupplierNotString string
      \<comment> \<open>\<^verbatim>\<open>{path} supplier should be string in 1.3\<close>\<close>
  | SupplierNotObject string string
      \<comment> \<open>\<^verbatim>\<open>{path} supplier should be object in {version}+\<close>\<close>
  | InvalidScope string json
      \<comment> \<open>\<^verbatim>\<open>{path} invalid scope: {component['scope']}\<close>\<close>
  | InvalidPurl string
      \<comment> \<open>\<^verbatim>\<open>{path} invalid PURL format\<close>\<close>
  | InvalidCpe string
      \<comment> \<open>\<^verbatim>\<open>{path} invalid CPE format\<close>\<close>
  | InvalidMimeType string
      \<comment> \<open>\<^verbatim>\<open>{path} invalid MIME type format\<close>\<close>
  | SwidMissingFields string
      \<comment> \<open>\<^verbatim>\<open>{path}.swid missing required fields (tagId, name)\<close>, with the component's path\<close>
  | EvidenceNotAvailable string string
      \<comment> \<open>\<^verbatim>\<open>{path} evidence field not available in {version}\<close>\<close>

text \<open>Services, hashes, external references and license choices.\<close>

datatype field_issue =
    InvalidUrlFormat string
      \<comment> \<open>\<^verbatim>\<open>{path} invalid URL format\<close>\<close>
  | InvalidFlow string
      \<comment> \<open>\<^verbatim>\<open>{path} invalid or missing flow\<close>\<close>
  | MissingClassification string
      \<comment> \<open>\<^verbatim>\<open>{path} missing classification\<close>\<close>
  | HashMissingFields string
      \<comment> \<open>\<^verbatim>\<open>{path} missing required fields (alg, content)\<close>\<close>
  | InvalidAlgorithm string json
      \<comment> \<open>\<^verbatim>\<open>{path} invalid algorithm: {alg}\<close>\<close>
  | InvalidHashContent string json
      \<comment> \<open>\<^verbatim>\<open>{path} invalid {alg} hash content format\<close>\<close>
  | ExtRefMissingFields string
      \<comment> \<open>\<^verbatim>\<open>{path} missing required fields (url, type)\<close>\<close>
  | LicenseNeither string
      \<comment> \<open>\<^verbatim>\<open>{path} must have either 'license' or 'expression'\<close>\<close>
  | LicenseBoth string
      \<comment> \<open>\<^verbatim>\<open>{path} cannot have both 'license' and 'expression'\<close>\<close>
  | LicenseNoIdOrName string
      \<comment> \<open>\<^verbatim>\<open>{path}.license must have either 'id' or 'name'\<close>, with the choice's path\<close>
  | ExpressionMaybeInvalid string
      \<comment> \<open>\<^verbatim>\<open>{path}.expression may be invalid SPDX format\<close>, with the choice's path\<close>

text \<open>Organizational entities, contacts, properties, pedigree and evidence.\<close>

datatype sub_issue =
    UrlNotArray string
      \<comment> \<open>\<^verbatim>\<open>{path}.url should be array\<close>, with the entity's path\<close>
  | InvalidEmail string
      \<comment> \<open>\<^verbatim>\<open>{path} invalid email format\<close>\<close>
  | PropertyMissingName string
      \<comment> \<open>\<^verbatim>\<open>{path}[{i}] missing 'name' field\<close>\<close>
  | PropertyMissingValue string
      \<comment> \<open>\<^verbatim>\<open>{path}[{i}] missing 'value' field\<close>\<close>
  | CommitMissingUid string
      \<comment> \<open>\<^verbatim>\<open>{path}.commits[{i}] missing 'uid' field\<close>\<close>
  | CommitInvalidTimestamp string
      \<comment> \<open>\<^verbatim>\<open>{path}.commits[{i}].{field} invalid timestamp\<close>\<close>
  | InvalidPatchType string
      \<comment> \<open>\<^verbatim>\<open>{path}.patches[{i}] invalid patch type\<close>\<close>
  | FrameMissingModule string
      \<comment> \<open>\<^verbatim>\<open>{path}.callstack.frames[{i}] missing required 'module' field in 1.5\<close>\<close>

datatype issue =
    Doc doc_issue
  | Graph graph_issue
  | Comp component_issue
  | Field field_issue
  | Sub sub_issue

text \<open>A sequence of statements, each of which extends \<^verbatim>\<open>issues\<close> or raises: the
  first exception ends the run, otherwise the diagnostics come in program order.\<close>

fun collect :: "issue list res list \<Rightarrow> issue list res" where
  "collect [] = Inr []"
| "collect (r # rs) =
     (case r of
        Inl e \<Rightarrow> Inl e
      | Inr a \<Rightarrow> (case collect rs of Inl e \<Rightarrow> Inl e | Inr b \<Rightarrow> Inr (a @ b)))"

text \<open>\<^verbatim>\<open>for i, x in enumerate(xs): issues.extend(f(i, x))\<close>, counting from \<open>i\<close>.\<close>

fun for_enum :: "(nat \<Rightarrow> json \<Rightarrow> issue list res) \<Rightarrow> nat \<Rightarrow> json list \<Rightarrow> issue list res" where
  "for_enum f i [] = Inr []"
| "for_enum f i (x # xs) =
     (case f i x of
        Inl e \<Rightarrow> Inl e
      | Inr a \<Rightarrow> (case for_enum f (Suc i) xs of Inl e \<Rightarrow> Inl e | Inr b \<Rightarrow> Inr (a @ b)))"

text \<open>\<^verbatim>\<open>if "k" in obj: for i, x in enumerate(obj["k"]): issues.extend(f(i, x))\<close>.\<close>

definition for_field :: "json \<Rightarrow> string \<Rightarrow> (nat \<Rightarrow> json \<Rightarrow> issue list res) \<Rightarrow> issue list res" where
  "for_field obj k f =
     bind_r (py_in k obj) (\<lambda>has.
       if has then
         bind_r (py_getitem obj k) (\<lambda>v.
         bind_r (py_iter v) (\<lambda>xs. for_enum f 0 xs))
       else Inr [])"

section \<open>Hash objects\<close>

definition valid_algorithms :: "string list" where
  "valid_algorithms =
     [''MD5'', ''SHA-1'', ''SHA-256'', ''SHA-384'', ''SHA-512'',
      ''SHA3-256'', ''SHA3-384'', ''SHA3-512'',
      ''BLAKE2b-256'', ''BLAKE2b-384'', ''BLAKE2b-512'', ''BLAKE3'']"

text \<open>The dictionary \<^verbatim>\<open>patterns\<close>: every pattern is \<^verbatim>\<open>^[a-fA-F0-9]{n}$\<close>, kept as
  its \<open>n\<close>.\<close>

definition patterns :: "(string \<times> nat) list" where
  "patterns =
     [(''MD5'', 32), (''SHA-1'', 40), (''SHA-256'', 64), (''SHA-384'', 96), (''SHA-512'', 128),
      (''SHA3-256'', 64), (''SHA3-384'', 96), (''SHA3-512'', 128),
      (''BLAKE2b-256'', 64), (''BLAKE2b-384'', 96), (''BLAKE2b-512'', 128), (''BLAKE3'', 64)]"

definition is_hex_digit :: "char \<Rightarrow> bool" where
  "is_hex_digit c =
     (let n = (of_char c :: nat)
      in (48 \<le> n \<and> n \<le> 57) \<or> (65 \<le> n \<and> n \<le> 70) \<or> (97 \<le> n \<and> n \<le> 102))"

text \<open>\<^verbatim>\<open>^[a-fA-F0-9]{n}$\<close>: exactly \<open>n\<close> hexadecimal digits; Python's \<^verbatim>\<open>$\<close> also
  matches just before a final newline.\<close>

definition hex_pattern :: "nat \<Rightarrow> string \<Rightarrow> bool" where
  "hex_pattern n s =
     (length (take n s) = n \<and> list_all is_hex_digit (take n s) \<and>
      (drop n s = [] \<or> drop n s = [CHR 0x0A]))"

definition validate_hash_object :: "json \<Rightarrow> string \<Rightarrow> issue list res" where
  "validate_hash_object hash_obj path =
     bind_r (py_in ''alg'' hash_obj) (\<lambda>has_alg.
       if \<not> has_alg then Inr [Field (HashMissingFields path)]
       else
         bind_r (py_in ''content'' hash_obj) (\<lambda>has_content.
           if \<not> has_content then Inr [Field (HashMissingFields path)]
           else
             bind_r (py_getitem hash_obj ''alg'') (\<lambda>alg.
             bind_r (py_getitem hash_obj ''content'') (\<lambda>content.
               if alg \<notin> set (map JStr valid_algorithms) then Inr [Field (InvalidAlgorithm path alg)]
               else
                 (case alg of
                    JStr a \<Rightarrow>
                      (case map_of patterns a of
                         None \<Rightarrow> Inl KeyError
                       | Some n \<Rightarrow>
                           bind_r (re_match (hex_pattern n) content) (\<lambda>ok.
                             Inr (if ok then [] else [Field (InvalidHashContent path alg)])))
                  | JArr xs \<Rightarrow> Inl TypeError
                  | JObj kvs \<Rightarrow> Inl TypeError
                  | _ \<Rightarrow> Inl KeyError)))))"

section \<open>License choices\<close>

text \<open>\<^verbatim>\<open>any(op in expr for op in ops)\<close>, stopping at the first operator found.\<close>

fun any_in :: "string list \<Rightarrow> json \<Rightarrow> bool res" where
  "any_in [] expr = Inr False"
| "any_in (op # ops) expr =
     bind_r (py_in op expr) (\<lambda>found. if found then Inr True else any_in ops expr)"

definition validate_license_choice :: "json \<Rightarrow> string \<Rightarrow> issue list res" where
  "validate_license_choice license_choice path =
     bind_r (py_in ''license'' license_choice) (\<lambda>has_license.
     bind_r (py_in ''expression'' license_choice) (\<lambda>has_expression.
       collect
        [Inr (if \<not> has_license \<and> \<not> has_expression then [Field (LicenseNeither path)]
              else if has_license \<and> has_expression then [Field (LicenseBoth path)]
              else []),
         (if has_license then
            bind_r (py_getitem license_choice ''license'') (\<lambda>license_obj.
            bind_r (py_in ''id'' license_obj) (\<lambda>has_id.
            bind_r (py_in ''name'' license_obj) (\<lambda>has_name.
              Inr (if \<not> has_id \<and> \<not> has_name then [Field (LicenseNoIdOrName path)] else []))))
          else Inr []),
         (if has_expression then
            bind_r (py_getitem license_choice ''expression'') (\<lambda>expr.
            bind_r (any_in [''AND'', ''OR'', ''WITH''] expr) (\<lambda>has_op.
              if has_op then Inr []
              else
                bind_r (py_in '' '' expr) (\<lambda>has_space.
                  Inr (if \<not> has_space then [] else [Field (ExpressionMaybeInvalid path)]))))
          else Inr [])]))"


section \<open>Value grammars\<close>

text \<open>Python compares strings character by character; a proper prefix is smaller.\<close>

fun str_le :: "string \<Rightarrow> string \<Rightarrow> bool" where
  "str_le [] t = True"
| "str_le (a # s) [] = False"
| "str_le (a # s) (b # t) =
     ((of_char a :: nat) < of_char b \<or> (a = b \<and> str_le s t))"

definition str_lt :: "string \<Rightarrow> string \<Rightarrow> bool" where
  "str_lt s t = (\<not> str_le t s)"

definition to_lower :: "char \<Rightarrow> char" where
  "to_lower c =
     (let n = (of_char c :: nat) in if 65 \<le> n \<and> n \<le> 90 then char_of (n + 32) else c)"

text \<open>\<^verbatim>\<open>$\<close> matches at the end of the string and just before a final newline.\<close>

definition at_end :: "string \<Rightarrow> bool" where
  "at_end r = (r = [] \<or> r = [CHR 0x0A])"

definition hex_run :: "nat \<Rightarrow> string \<Rightarrow> bool" where
  "hex_run n s = (length s = n \<and> list_all is_hex_digit s)"

text \<open>\<^verbatim>\<open>^urn:uuid:[0-9a-f]{8}-[0-9a-f]{4}-[0-9a-f]{4}-[0-9a-f]{4}-[0-9a-f]{12}$\<close> under
  \<^verbatim>\<open>re.IGNORECASE\<close> (on ASCII text).\<close>

definition uuid_pattern :: "string \<Rightarrow> bool" where
  "uuid_pattern s =
     (map to_lower (take 9 s) = ''urn:uuid:'' \<and>
      hex_run 8 (take 8 (drop 9 s)) \<and> take 1 (drop 17 s) = ''-'' \<and>
      hex_run 4 (take 4 (drop 18 s)) \<and> take 1 (drop 22 s) = ''-'' \<and>
      hex_run 4 (take 4 (drop 23 s)) \<and> take 1 (drop 27 s) = ''-'' \<and>
      hex_run 4 (take 4 (drop 28 s)) \<and> take 1 (drop 32 s) = ''-'' \<and>
      hex_run 12 (take 12 (drop 33 s)) \<and> at_end (drop 45 s))"

definition is_mime_char :: "char \<Rightarrow> bool" where
  "is_mime_char c =
     (let n = (of_char c :: nat)
      in c = CHR ''-'' \<or> c = CHR ''+'' \<or> c = CHR ''.'' \<or>
         (97 \<le> n \<and> n \<le> 122) \<or> (48 \<le> n \<and> n \<le> 57))"

text \<open>\<^verbatim>\<open>^[-+a-z0-9.]+/[-+a-z0-9.]+$\<close>.\<close>

definition mime_pattern :: "string \<Rightarrow> bool" where
  "mime_pattern s =
     (let a = takeWhile is_mime_char s; r = dropWhile is_mime_char s
      in a \<noteq> [] \<and> take 1 r = ''/'' \<and>
         takeWhile is_mime_char (drop 1 r) \<noteq> [] \<and>
         at_end (dropWhile is_mime_char (drop 1 r)))"

text \<open>\<^verbatim>\<open>^[^@]+@[^@]+\.[^@]+$\<close>: one \<^verbatim>\<open>@\<close>, something before it, and after it a dot
  that is neither the first nor the last character.\<close>

definition email_pattern :: "string \<Rightarrow> bool" where
  "email_pattern s =
     (let a = takeWhile (\<lambda>c. c \<noteq> CHR ''@'') s; d = drop 1 (dropWhile (\<lambda>c. c \<noteq> CHR ''@'') s)
      in a \<noteq> [] \<and> length a < length s \<and> CHR ''@'' \<notin> set d \<and>
         CHR ''.'' \<in> set (butlast (drop 1 d)))"

subsection \<open>The Python library\<close>

text \<open>
  Two functions of the Python library decide what the validator reports and are not part
  of the repository: \<^verbatim>\<open>urllib.parse.urlparse\<close> and \<^verbatim>\<open>datetime.fromisoformat\<close>. They
  are the two fields of the parameter \<open>lib\<close> of every validator that reaches them.
  \<open>urlparse lib s\<close> is the scheme and the network location of the string \<open>s\<close>, or
  \<open>None\<close> when the library raises; \<open>fromisoformat lib s\<close> says whether the library
  parses the string \<open>s\<close> (otherwise it raises \<^verbatim>\<open>ValueError\<close>, which both call sites
  catch).
\<close>

record pylib =
  urlparse :: "string \<Rightarrow> (string \<times> string) option"
  fromisoformat :: "string \<Rightarrow> bool"

subsection \<open>ISO timestamps\<close>

text \<open>
  One parser for the field \<open>fromisoformat\<close>, used in the examples: it follows the grammar
  \<^verbatim>\<open>YYYY-MM-DD[*HH[:MM[:SS[.fff[fff]]]][+HH:MM[:SS[.ffffff]]]]\<close> that the library
  documents for \<^verbatim>\<open>datetime.isoformat()\<close> output, with the field ranges of the
  \<^verbatim>\<open>datetime\<close> constructor and an offset of less than a day. Later versions of the
  library parse further ISO 8601 notations.
\<close>

definition digit_val :: "char \<Rightarrow> nat option" where
  "digit_val c =
     (let n = (of_char c :: nat) in if 48 \<le> n \<and> n \<le> 57 then Some (n - 48) else None)"

text \<open>The value of a string made of decimal digits only.\<close>

fun digits_val :: "nat \<Rightarrow> string \<Rightarrow> nat option" where
  "digits_val acc [] = Some acc"
| "digits_val acc (c # cs) =
     (case digit_val c of None \<Rightarrow> None | Some d \<Rightarrow> digits_val (10 * acc + d) cs)"

definition parse_digits :: "nat \<Rightarrow> string \<Rightarrow> nat option" where
  "parse_digits n s = (if length s = n then digits_val 0 s else None)"

definition is_leap :: "nat \<Rightarrow> bool" where
  "is_leap y = (y mod 4 = 0 \<and> (y mod 400 = 0 \<or> y mod 100 \<noteq> 0))"

definition days_in_month :: "nat \<Rightarrow> nat \<Rightarrow> nat" where
  "days_in_month y m =
     (if m = 2 then (if is_leap y then 29 else 28)
      else if m = 4 \<or> m = 6 \<or> m = 9 \<or> m = 11 then 30 else 31)"

definition parse_isoformat_date :: "string \<Rightarrow> bool" where
  "parse_isoformat_date s =
     (case (parse_digits 4 (take 4 s), parse_digits 2 (take 2 (drop 5 s)),
            parse_digits 2 (take 2 (drop 8 s))) of
        (Some y, Some m, Some d) \<Rightarrow>
          length s = 10 \<and> take 1 (drop 4 s) = ''-'' \<and> take 1 (drop 7 s) = ''-'' \<and>
          1 \<le> y \<and> 1 \<le> m \<and> m \<le> 12 \<and> 1 \<le> d \<and> d \<le> days_in_month y m
      | _ \<Rightarrow> False)"

text \<open>\<^verbatim>\<open>HH[:MM[:SS[.fff[fff]]]]\<close>: hours, minutes and seconds when it parses.\<close>

definition parse_hh_mm_ss_ff :: "string \<Rightarrow> (nat \<times> nat \<times> nat) option" where
  "parse_hh_mm_ss_ff s =
     (case parse_digits 2 (take 2 s) of
        None \<Rightarrow> None
      | Some h \<Rightarrow>
          if drop 2 s = [] then Some (h, 0, 0)
          else if take 1 (drop 2 s) \<noteq> '':'' then None
          else
            (case parse_digits 2 (take 2 (drop 3 s)) of
               None \<Rightarrow> None
             | Some m \<Rightarrow>
                 if drop 5 s = [] then Some (h, m, 0)
                 else if take 1 (drop 5 s) \<noteq> '':'' then None
                 else
                   (case parse_digits 2 (take 2 (drop 6 s)) of
                      None \<Rightarrow> None
                    | Some sec \<Rightarrow>
                        if drop 8 s = [] then Some (h, m, sec)
                        else if take 1 (drop 8 s) \<noteq> ''.'' then None
                        else if parse_digits 3 (drop 9 s) \<noteq> None
                                \<or> parse_digits 6 (drop 9 s) \<noteq> None
                        then Some (h, m, sec)
                        else None)))"

definition is_sign :: "char \<Rightarrow> bool" where
  "is_sign c = (c = CHR ''+'' \<or> c = CHR ''-'')"

definition parse_isoformat_time :: "string \<Rightarrow> bool" where
  "parse_isoformat_time t =
     (let timestr = takeWhile (\<lambda>c. \<not> is_sign c) t;
          tzstr = drop 1 (dropWhile (\<lambda>c. \<not> is_sign c) t)
      in (case parse_hh_mm_ss_ff timestr of
            None \<Rightarrow> False
          | Some (h, m, s) \<Rightarrow>
              h < 24 \<and> m < 60 \<and> s < 60 \<and>
              (if length timestr = length t then True
               else if length tzstr \<in> {5, 8, 15} then
                 (case parse_hh_mm_ss_ff tzstr of
                    None \<Rightarrow> False
                  | Some (zh, zm, zs) \<Rightarrow> zh * 3600 + zm * 60 + zs < 86400)
               else False)))"

definition documented_isoformat :: "string \<Rightarrow> bool" where
  "documented_isoformat s =
     (parse_isoformat_date (take 10 s) \<and>
      (length s = 10 \<or> parse_isoformat_time (drop 11 s)))"

text \<open>\<^verbatim>\<open>s.replace('Z', '+00:00')\<close> on a string.\<close>

definition replace_Z :: "string \<Rightarrow> string" where
  "replace_Z s = concat (map (\<lambda>c. if c = CHR ''Z'' then ''+00:00'' else [c]) s)"

text \<open>\<^verbatim>\<open>x.replace('Z', '+00:00')\<close>: only a string has the method.\<close>

fun py_replace_Z :: "json \<Rightarrow> string res" where
  "py_replace_Z (JStr s) = Inr (replace_Z s)"
| "py_replace_Z (JArr xs) = Inl AttributeError"
| "py_replace_Z (JObj kvs) = Inl AttributeError"
| "py_replace_Z JNull = Inl AttributeError"
| "py_replace_Z (JBool b) = Inl AttributeError"
| "py_replace_Z (JInt n) = Inl AttributeError"

text \<open>
  \<^verbatim>\<open>try: datetime.fromisoformat(ts.replace('Z', '+00:00'))\<close>
  \<^verbatim>\<open>except ValueError: issues.append(bad)\<close>
\<close>

definition timestamp_check :: "pylib \<Rightarrow> json \<Rightarrow> issue \<Rightarrow> issue list res" where
  "timestamp_check lib ts bad =
     bind_r (py_replace_Z ts) (\<lambda>s. Inr (if fromisoformat lib s then [] else [bad]))"

subsection \<open>URLs\<close>

text \<open>\<^verbatim>\<open>is_valid_url\<close> catches every exception, and a value that is not a string never
  has both a scheme and a network location.\<close>

fun is_valid_url :: "pylib \<Rightarrow> json \<Rightarrow> bool" where
  "is_valid_url lib (JStr s) =
     (case urlparse lib s of None \<Rightarrow> False | Some (scheme, netloc) \<Rightarrow> scheme \<noteq> [] \<and> netloc \<noteq> [])"
| "is_valid_url lib _ = False"

section \<open>Validators of the parts of a document\<close>

text \<open>\<^verbatim>\<open>if "k" not in obj: issues.append(d)\<close>.\<close>

definition require_field :: "json \<Rightarrow> string \<Rightarrow> issue \<Rightarrow> issue list res" where
  "require_field obj k d = bind_r (py_in k obj) (\<lambda>has. Inr (if has then [] else [d]))"

text \<open>\<^verbatim>\<open>if "k" in obj: issues.extend(f(obj["k"]))\<close>.\<close>

definition when_field :: "json \<Rightarrow> string \<Rightarrow> (json \<Rightarrow> issue list res) \<Rightarrow> issue list res" where
  "when_field obj k f =
     bind_r (py_in k obj) (\<lambda>has. if has then bind_r (py_getitem obj k) f else Inr [])"

definition validate_organizational_contact :: "json \<Rightarrow> string \<Rightarrow> issue list res" where
  "validate_organizational_contact contact path =
     when_field contact ''email'' (\<lambda>email.
       bind_r (re_match email_pattern email) (\<lambda>ok.
         Inr (if ok then [] else [Sub (InvalidEmail path)])))"

definition validate_organizational_entity :: "pylib \<Rightarrow> json \<Rightarrow> string \<Rightarrow> issue list res" where
  "validate_organizational_entity lib entity path =
     collect
      [require_field entity ''name'' (Comp (MissingNameField path)),
       when_field entity ''url'' (\<lambda>urls.
         if \<not> isinstance_list urls then Inr [Sub (UrlNotArray path)]
         else
           bind_r (py_iter urls) (\<lambda>xs.
             for_enum (\<lambda>i url.
               Inr (if is_valid_url lib url then []
                    else [Field (InvalidUrlFormat (idx_path (path @ ''.url'') i))])) 0 xs)),
       for_field entity ''contact'' (\<lambda>i contact.
         validate_organizational_contact contact (idx_path (path @ ''.contact'') i))]"

definition validate_properties_array :: "json \<Rightarrow> string \<Rightarrow> issue list res" where
  "validate_properties_array properties path =
     bind_r (py_iter properties) (\<lambda>xs.
       for_enum (\<lambda>i prop.
         collect
          [require_field prop ''name'' (Sub (PropertyMissingName (idx_path path i))),
           require_field prop ''value'' (Sub (PropertyMissingValue (idx_path path i)))]) 0 xs)"

definition valid_patch_types :: "string list" where
  "valid_patch_types = [''unofficial'', ''monkey'', ''backport'', ''cherry-pick'']"

text \<open>The body of \<^verbatim>\<open>for field in ["author", "committer"]\<close> for one commit.\<close>

definition commit_action_check :: "pylib \<Rightarrow> json \<Rightarrow> string \<Rightarrow> string \<Rightarrow> issue list res" where
  "commit_action_check lib commit cpath field =
     when_field commit field (\<lambda>action.
       when_field action ''timestamp'' (\<lambda>ts.
         timestamp_check lib ts (Sub (CommitInvalidTimestamp (cpath @ ''.'' @ field)))))"

definition validate_pedigree :: "pylib \<Rightarrow> json \<Rightarrow> string \<Rightarrow> issue list res" where
  "validate_pedigree lib pedigree path =
     collect
      [for_field pedigree ''commits'' (\<lambda>i commit.
         collect
          [require_field commit ''uid'' (Sub (CommitMissingUid (idx_path (path @ ''.commits'') i))),
           commit_action_check lib commit (idx_path (path @ ''.commits'') i) ''author'',
           commit_action_check lib commit (idx_path (path @ ''.commits'') i) ''committer'']),
       for_field pedigree ''patches'' (\<lambda>i patch.
         bind_r (py_in ''type'' patch) (\<lambda>has.
           if \<not> has then Inr [Comp (MissingTypeField (idx_path (path @ ''.patches'') i))]
           else
             bind_r (py_getitem patch ''type'') (\<lambda>t.
               Inr (if t \<in> set (map JStr valid_patch_types) then []
                    else [Sub (InvalidPatchType (idx_path (path @ ''.patches'') i))]))))]"

definition validate_evidence :: "json \<Rightarrow> string \<Rightarrow> string \<Rightarrow> issue list res" where
  "validate_evidence evidence path version =
     when_field evidence ''callstack'' (\<lambda>callstack.
       bind_r (py_get callstack ''frames'' (JArr [])) (\<lambda>frames.
       bind_r (py_iter frames) (\<lambda>xs.
         for_enum (\<lambda>i frame.
           if version = ''1.5'' then
             require_field frame ''module''
               (Sub (FrameMissingModule (idx_path (path @ ''.callstack.frames'') i)))
           else Inr []) 0 xs)))"

definition valid_reference_types :: "string list" where
  "valid_reference_types =
     [''vcs'', ''issue-tracker'', ''website'', ''advisories'', ''bom'',
      ''mailing-list'', ''social'', ''chat'', ''documentation'', ''support'',
      ''distribution'', ''license'', ''build-meta'', ''build-system'',
      ''release-notes'', ''other'']"

definition validate_external_reference :: "pylib \<Rightarrow> json \<Rightarrow> string \<Rightarrow> issue list res" where
  "validate_external_reference lib ref path =
     bind_r (py_in ''url'' ref) (\<lambda>has_url.
       if \<not> has_url then Inr [Field (ExtRefMissingFields path)]
       else
         bind_r (py_in ''type'' ref) (\<lambda>has_type.
           if \<not> has_type then Inr [Field (ExtRefMissingFields path)]
           else
             collect
              [bind_r (py_getitem ref ''type'') (\<lambda>t.
                 Inr (if t \<in> set (map JStr valid_reference_types) then []
                      else [Comp (InvalidType path t)])),
               bind_r (py_getitem ref ''url'') (\<lambda>url.
                 Inr (if is_valid_url lib url then [] else [Field (InvalidUrlFormat path)])),
               for_field ref ''hashes'' (\<lambda>i hash_obj.
                 validate_hash_object hash_obj (idx_path (path @ ''.hashes'') i))]))"

definition valid_flows :: "string list" where
  "valid_flows = [''inbound'', ''outbound'', ''bi-directional'', ''unknown'']"

definition validate_service_structure :: "pylib \<Rightarrow> json \<Rightarrow> string \<Rightarrow> issue list res" where
  "validate_service_structure lib service path =
     collect
      [require_field service ''name'' (Comp (MissingNameField path)),
       for_field service ''endpoints'' (\<lambda>i endpoint.
         Inr (if is_valid_url lib endpoint then []
              else [Field (InvalidUrlFormat (idx_path (path @ ''.endpoints'') i))])),
       for_field service ''data'' (\<lambda>i data_item.
         collect
          [bind_r (py_in ''flow'' data_item) (\<lambda>has.
             if \<not> has then Inr [Field (InvalidFlow (idx_path (path @ ''.data'') i))]
             else
               bind_r (py_getitem data_item ''flow'') (\<lambda>flow.
                 Inr (if flow \<in> set (map JStr valid_flows) then []
                      else [Field (InvalidFlow (idx_path (path @ ''.data'') i))]))),
           require_field data_item ''classification''
             (Field (MissingClassification (idx_path (path @ ''.data'') i)))]),
       when_field service ''provider'' (\<lambda>provider.
         validate_organizational_entity lib provider (path @ ''.provider''))]"

section \<open>Components\<close>

definition valid_types :: "string list" where
  "valid_types =
     [''application'', ''framework'', ''library'', ''container'',
      ''operating-system'', ''device'', ''firmware'', ''file'']"

definition valid_scopes :: "string list" where
  "valid_scopes = [''required'', ''optional'', ''excluded'']"

text \<open>Everything \<^verbatim>\<open>validate_component_structure\<close> does before it turns to the nested
  components, statement by statement.\<close>

definition component_fields :: "pylib \<Rightarrow> json \<Rightarrow> string \<Rightarrow> string \<Rightarrow> issue list res list" where
  "component_fields lib component path version =
     [bind_r (py_in ''type'' component) (\<lambda>has.
        if \<not> has then Inr [Comp (MissingTypeField path)]
        else
          bind_r (py_getitem component ''type'') (\<lambda>t.
            Inr (if t \<in> set (map JStr valid_types) then [] else [Comp (InvalidType path t)]))),
      require_field component ''name'' (Comp (MissingNameField path)),
      (if version = ''1.3'' then require_field component ''version'' (Comp (MissingVersionField path))
       else Inr []),
      bind_r (py_in ''supplier'' component) (\<lambda>has.
        if \<not> has then Inr []
        else if version = ''1.3'' then
          bind_r (py_getitem component ''supplier'') (\<lambda>supplier.
            Inr (if isinstance_str supplier then [] else [Comp (SupplierNotString path)]))
        else if str_le ''1.4'' version then
          bind_r (py_getitem component ''supplier'') (\<lambda>supplier.
            if \<not> isinstance_dict supplier then Inr [Comp (SupplierNotObject path version)]
            else validate_organizational_entity lib supplier (path @ ''.supplier''))
        else Inr []),
      when_field component ''scope'' (\<lambda>scope.
        Inr (if scope \<in> set (map JStr valid_scopes) then [] else [Comp (InvalidScope path scope)])),
      for_field component ''hashes'' (\<lambda>i hash_obj.
        validate_hash_object hash_obj (idx_path (path @ ''.hashes'') i)),
      for_field component ''licenses'' (\<lambda>i license_choice.
        validate_license_choice license_choice (idx_path (path @ ''.licenses'') i)),
      when_field component ''purl'' (\<lambda>purl.
        bind_r (py_startswith purl ''pkg:'') (\<lambda>ok. Inr (if ok then [] else [Comp (InvalidPurl path)]))),
      when_field component ''cpe'' (\<lambda>cpe.
        bind_r (py_startswith cpe ''cpe:'') (\<lambda>ok. Inr (if ok then [] else [Comp (InvalidCpe path)]))),
      when_field component ''mime-type'' (\<lambda>mime.
        bind_r (re_match mime_pattern mime) (\<lambda>ok.
          Inr (if ok then [] else [Comp (InvalidMimeType path)]))),
      when_field component ''swid'' (\<lambda>swid.
        bind_r (py_in ''tagId'' swid) (\<lambda>has_tag.
          if \<not> has_tag then Inr [Comp (SwidMissingFields path)]
          else require_field swid ''name'' (Comp (SwidMissingFields path)))),
      for_field component ''externalReferences'' (\<lambda>i ref.
        validate_external_reference lib ref (idx_path (path @ ''.externalReferences'') i)),
      when_field component ''pedigree'' (\<lambda>pedigree.
        validate_pedigree lib pedigree (path @ ''.pedigree'')),
      bind_r (py_in ''evidence'' component) (\<lambda>has.
        if \<not> has then Inr []
        else if str_lt version ''1.5'' then Inr [Comp (EvidenceNotAvailable path version)]
        else
          bind_r (py_getitem component ''evidence'') (\<lambda>evidence.
            validate_evidence evidence (path @ ''.evidence'') version)),
      when_field component ''properties'' (\<lambda>properties.
        validate_properties_array properties (path @ ''.properties''))]"

lemma bind_r_simps [simp]:
  "bind_r (Inl e) f = Inl e" "bind_r (Inr x) f = f x"
  by (simp_all add: bind_r_def)

lemma for_enum_ext:
  "(\<And>n x. x \<in> set xs \<Longrightarrow> f n x = g n x) \<Longrightarrow> for_enum f i xs = for_enum g i xs"
proof (induction xs arbitrary: i)
  case Nil
  show ?case by simp
next
  case (Cons a xs)
  have t: "for_enum f (Suc i) xs = for_enum g (Suc i) xs"
    by (rule Cons.IH) (simp add: Cons.prems)
  have h: "f i a = g i a" by (simp add: Cons.prems)
  show ?case unfolding for_enum.simps h t by (rule refl)
qed

lemma for_enum_cong [fundef_cong]:
  "xs = ys \<Longrightarrow> i = j \<Longrightarrow> (\<And>n x. x \<in> set ys \<Longrightarrow> f n x = g n x) \<Longrightarrow>
   for_enum f i xs = for_enum g j ys"
  using for_enum_ext by blast

lemma for_field_cong [fundef_cong]:
  "obj = obj' \<Longrightarrow> k = k' \<Longrightarrow>
   (\<And>v xs n x. py_getitem obj' k' = Inr v \<Longrightarrow> py_iter v = Inr xs \<Longrightarrow> x \<in> set xs \<Longrightarrow>
      f n x = g n x) \<Longrightarrow>
   for_field obj k f = for_field obj' k' g"
  unfolding for_field_def bind_r_def
  by (auto split: sum.splits intro: for_enum_cong)

lemma nested_item_smaller:
  assumes "py_getitem c k = Inr v" "py_iter v = Inr xs" "x \<in> set xs"
  shows "size x < size c"
proof -
  from assms(1) obtain kvs where c: "c = JObj kvs" and m: "map_of kvs k = Some v"
    by (cases c) (auto split: option.splits)
  from m have "(k, v) \<in> set kvs" by (rule map_of_SomeD)
  then have "size v < size (JObj kvs)"
    by (induction kvs) auto
  moreover have "size x \<le> size v"
  proof (cases v)
    case (JArr ys)
    with assms(2,3) have "x \<in> set ys" by simp
    then have "size x < size (JArr ys)" by (induction ys) auto
    with JArr show ?thesis by simp
  next
    case (JObj kvs')
    with assms(2,3) show ?thesis by auto
  next
    case (JStr s)
    with assms(2,3) show ?thesis by auto
  qed (use assms(2) in auto)
  ultimately show ?thesis using c by simp
qed

function validate_component_structure ::
    "pylib \<Rightarrow> json \<Rightarrow> string \<Rightarrow> string \<Rightarrow> issue list res" where
  "validate_component_structure lib component path version =
     collect
      (component_fields lib component path version @
       [for_field component ''components'' (\<lambda>i nested.
          validate_component_structure lib nested
            (idx_path (path @ ''.components'') i) version)])"
  by pat_completeness auto
termination
  by (relation "measure (\<lambda>(u, c, p, v). size c)") (auto intro: nested_item_smaller)

declare validate_component_structure.simps [simp del]

section \<open>The main validator\<close>

text \<open>
  \<^verbatim>\<open>validate_complete_cyclonedx_schema(data, version)\<close> runs eight sections one after
  the other. Its state is the document it was given, the list \<^verbatim>\<open>issues\<close> and the set
  \<^verbatim>\<open>bom_refs\<close>; the validators of the parts above return fresh lists, which the main
  function appends to \<^verbatim>\<open>issues\<close>.
\<close>

record vstate =
  data :: json
  issues :: "issue list"
  bom_refs :: "json set"

text \<open>Lists and dictionaries cannot be members of a Python set; \<^verbatim>\<open>True\<close> and
  \<^verbatim>\<open>False\<close> are the same set members as \<^verbatim>\<open>1\<close> and \<^verbatim>\<open>0\<close>.\<close>

fun py_hashable :: "json \<Rightarrow> bool" where
  "py_hashable (JArr xs) = False"
| "py_hashable (JObj kvs) = False"
| "py_hashable _ = True"

fun ref_key :: "json \<Rightarrow> json" where
  "ref_key (JBool b) = JInt (if b then 1 else 0)"
| "ref_key x = x"

text \<open>\<^verbatim>\<open>x in bom_refs\<close>.\<close>

definition set_contains :: "json set \<Rightarrow> json \<Rightarrow> bool res" where
  "set_contains refs x = (if py_hashable x then Inr (ref_key x \<in> refs) else Inl TypeError)"

text \<open>\<^verbatim>\<open>issues.extend(...)\<close>.\<close>

definition extend_issues :: "issue list res \<Rightarrow> vstate \<Rightarrow> vstate res" where
  "extend_issues r s = bind_r r (\<lambda>found. Inr (s\<lparr>issues := issues s @ found\<rparr>))"

text \<open>A loop of the main function whose body changes the state.\<close>

fun for_state :: "(nat \<Rightarrow> json \<Rightarrow> vstate \<Rightarrow> vstate res) \<Rightarrow> nat \<Rightarrow> json list \<Rightarrow> vstate \<Rightarrow> vstate res" where
  "for_state f i [] s = Inr s"
| "for_state f i (x # xs) s = bind_r (f i x s) (for_state f (Suc i) xs)"

subsection \<open>1. Document level\<close>

definition required :: "string list" where
  "required = [''bomFormat'', ''specVersion'', ''version'']"

definition schema_uri :: "string \<Rightarrow> string" where
  "schema_uri version = ''http://cyclonedx.org/schema/bom-'' @ version @ ''.schema.json''"

definition document_level :: "json \<Rightarrow> string \<Rightarrow> issue list res" where
  "document_level d version =
     collect
      [collect (map (\<lambda>field. require_field d field (Doc (MissingRequiredField field))) required),
       bind_r (py_get d ''bomFormat'' JNull) (\<lambda>v.
         Inr (if v = JStr ''CycloneDX'' then [] else [Doc (InvalidBomFormat v)])),
       (if str_le ''1.4'' version then
          bind_r (py_in ''$schema'' d) (\<lambda>has.
            if \<not> has then Inr [Doc (MissingSchema version)]
            else
              bind_r (py_getitem d ''$schema'') (\<lambda>v.
                Inr (if v = JStr (schema_uri version) then [] else [Doc (IncorrectSchema version)])))
        else
          bind_r (py_in ''$schema'' d) (\<lambda>has.
            Inr (if has then [Doc (SchemaNotAllowed version)] else []))),
       when_field d ''serialNumber'' (\<lambda>v.
         bind_r (re_match uuid_pattern v) (\<lambda>ok.
           Inr (if ok then [] else [Doc InvalidSerialNumber])))]"

subsection \<open>2. Metadata\<close>

text \<open>\<^verbatim>\<open>all(k in tool for k in ks)\<close>, stopping at the first key that is missing.\<close>

fun all_in :: "string list \<Rightarrow> json \<Rightarrow> bool res" where
  "all_in [] tool = Inr True"
| "all_in (k # ks) tool =
     bind_r (py_in k tool) (\<lambda>found. if found then all_in ks tool else Inr False)"

definition valid_phases :: "string list" where
  "valid_phases =
     [''design'', ''pre-build'', ''build'', ''post-build'', ''operations'', ''discovery'',
      ''decommission'']"

definition metadata_level :: "pylib \<Rightarrow> json \<Rightarrow> string \<Rightarrow> issue list res" where
  "metadata_level lib d version =
     bind_r (py_get d ''metadata'' (JObj [])) (\<lambda>metadata.
       collect
        [when_field metadata ''timestamp'' (\<lambda>ts. timestamp_check lib ts (Doc InvalidTimestamp)),
         when_field metadata ''tools'' (\<lambda>tools.
           if str_le ''1.5'' version then
             (if \<not> isinstance_dict tools then Inr [Doc (ToolsNotComponents version)]
              else
                bind_r (py_in ''components'' tools) (\<lambda>has.
                  if \<not> has then Inr [Doc (ToolsNotComponents version)]
                  else
                    bind_r (py_get tools ''components'' (JArr [])) (\<lambda>cs.
                    bind_r (py_iter cs) (\<lambda>xs.
                      for_enum (\<lambda>i tool.
                        validate_component_structure lib tool
                          (idx_path ''tools.components'' i) version) 0 xs))))
           else
             (if \<not> isinstance_list tools then Inr [Doc (ToolsNotArray version)]
              else
                bind_r (py_iter tools) (\<lambda>xs.
                  for_enum (\<lambda>i tool.
                    bind_r (all_in [''vendor'', ''name'', ''version''] tool) (\<lambda>ok.
                      Inr (if ok then [] else [Doc (ToolMissingFields i)]))) 0 xs))),
         for_field metadata ''authors'' (\<lambda>i author.
           validate_organizational_contact author (idx_path ''metadata.authors'' i)),
         when_field metadata ''manufacture'' (\<lambda>e.
           validate_organizational_entity lib e ''metadata.manufacture''),
         when_field metadata ''supplier'' (\<lambda>e.
           validate_organizational_entity lib e ''metadata.supplier''),
         when_field metadata ''component'' (\<lambda>c.
           validate_component_structure lib c ''metadata.component'' version),
         for_field metadata ''licenses'' (\<lambda>i license_choice.
           validate_license_choice license_choice (idx_path ''metadata.licenses'' i)),
         when_field metadata ''properties'' (\<lambda>properties.
           validate_properties_array properties ''metadata.properties''),
         bind_r (py_in ''lifecycles'' metadata) (\<lambda>has_lifecycles.
           if \<not> has_lifecycles then Inr []
           else if str_lt version ''1.5'' then Inr [Doc (LifecyclesNotAvailable version)]
           else
             bind_r (py_getitem metadata ''lifecycles'') (\<lambda>lifecycles.
             bind_r (py_iter lifecycles) (\<lambda>xs.
               for_enum (\<lambda>i lifecycle.
                 bind_r (py_in ''phase'' lifecycle) (\<lambda>has.
                   if \<not> has then Inr [Doc (LifecycleMissingPhase i)]
                   else
                     bind_r (py_getitem lifecycle ''phase'') (\<lambda>phase.
                       Inr (if phase \<in> set (map JStr valid_phases) then []
                            else [Doc (InvalidLifecyclePhase phase)])))) 0 xs)))])"

subsection \<open>3. Components, and the bom-ref of the metadata component\<close>

text \<open>
  \<^verbatim>\<open>if "bom-ref" in entity:\<close>
  \<^verbatim>\<open>    if entity["bom-ref"] in bom_refs: issues.append(duplicate)\<close>
  \<^verbatim>\<open>    else: bom_refs.add(entity["bom-ref"])\<close>
\<close>

definition note_bom_ref :: "(json \<Rightarrow> issue) \<Rightarrow> json \<Rightarrow> vstate \<Rightarrow> vstate res" where
  "note_bom_ref duplicate entity s =
     bind_r (py_in ''bom-ref'' entity) (\<lambda>has.
       if \<not> has then Inr s
       else
         bind_r (py_getitem entity ''bom-ref'') (\<lambda>r.
         bind_r (set_contains (bom_refs s) r) (\<lambda>seen.
           Inr (if seen then s\<lparr>issues := issues s @ [duplicate r]\<rparr>
                else s\<lparr>bom_refs := insert (ref_key r) (bom_refs s)\<rparr>))))"

definition component_step :: "pylib \<Rightarrow> string \<Rightarrow> nat \<Rightarrow> json \<Rightarrow> vstate \<Rightarrow> vstate res" where
  "component_step lib version i component s =
     bind_r (extend_issues
               (validate_component_structure lib component (idx_path ''components'' i) version) s)
       (note_bom_ref (\<lambda>r. Graph (DuplicateBomRef r)) component)"

definition components_level :: "pylib \<Rightarrow> string \<Rightarrow> vstate \<Rightarrow> vstate res" where
  "components_level lib version s =
     bind_r (py_in ''components'' (data s)) (\<lambda>has.
       if \<not> has then Inr (s\<lparr>bom_refs := {}\<rparr>)
       else
         bind_r (py_getitem (data s) ''components'') (\<lambda>v.
         bind_r (py_iter v) (\<lambda>xs.
           for_state (component_step lib version) 0 xs (s\<lparr>bom_refs := {}\<rparr>))))"

definition metadata_bom_ref :: "vstate \<Rightarrow> vstate res" where
  "metadata_bom_ref s =
     bind_r (py_in ''metadata'' (data s)) (\<lambda>has_metadata.
       if \<not> has_metadata then Inr s
       else
         bind_r (py_getitem (data s) ''metadata'') (\<lambda>metadata.
         bind_r (py_in ''component'' metadata) (\<lambda>has_component.
           if \<not> has_component then Inr s
           else
             bind_r (py_getitem metadata ''component'') (\<lambda>component.
             bind_r (py_in ''bom-ref'' component) (\<lambda>has_ref.
               if \<not> has_ref then Inr s
               else
                 bind_r (py_getitem component ''bom-ref'') (\<lambda>r.
                   if py_hashable r then Inr (s\<lparr>bom_refs := insert (ref_key r) (bom_refs s)\<rparr>)
                   else Inl TypeError))))))"

subsection \<open>4. Services\<close>

definition service_step :: "pylib \<Rightarrow> nat \<Rightarrow> json \<Rightarrow> vstate \<Rightarrow> vstate res" where
  "service_step lib i service s =
     bind_r (extend_issues (validate_service_structure lib service (idx_path ''services'' i)) s)
       (note_bom_ref (\<lambda>r. Graph (DuplicateServiceBomRef r)) service)"

definition services_level :: "pylib \<Rightarrow> vstate \<Rightarrow> vstate res" where
  "services_level lib s =
     bind_r (py_in ''services'' (data s)) (\<lambda>has.
       if \<not> has then Inr s
       else
         bind_r (py_getitem (data s) ''services'') (\<lambda>v.
         bind_r (py_iter v) (\<lambda>xs. for_state (service_step lib) 0 xs s)))"

subsection \<open>5. Dependencies\<close>

definition depends_on_check :: "json set \<Rightarrow> nat \<Rightarrow> nat \<Rightarrow> json \<Rightarrow> issue list res" where
  "depends_on_check refs i j dep_ref =
     bind_r (set_contains refs dep_ref) (\<lambda>found.
       Inr (if found then [] else [Graph (DependsOnNotFound i j dep_ref)]))"

definition dependency_check :: "json set \<Rightarrow> nat \<Rightarrow> json \<Rightarrow> issue list res" where
  "dependency_check refs i dep =
     collect
      [bind_r (py_in ''ref'' dep) (\<lambda>has.
         if \<not> has then Inr [Graph (DependencyMissingRef i)]
         else
           bind_r (py_getitem dep ''ref'') (\<lambda>r.
           bind_r (set_contains refs r) (\<lambda>found.
             Inr (if found then [] else [Graph (DependencyRefNotFound i r)])))),
       for_field dep ''dependsOn'' (depends_on_check refs i)]"

definition dependencies_level :: "json \<Rightarrow> json set \<Rightarrow> issue list res" where
  "dependencies_level d refs = for_field d ''dependencies'' (dependency_check refs)"

subsection \<open>6. to 8. Compositions, vulnerabilities, external references\<close>

definition valid_aggregates :: "string list" where
  "valid_aggregates =
     [''complete'', ''incomplete'', ''incomplete_first_party_only'',
      ''incomplete_third_party_only'', ''unknown'', ''not_specified'']"

definition compositions_level :: "json \<Rightarrow> issue list res" where
  "compositions_level d =
     for_field d ''compositions'' (\<lambda>i comp.
       bind_r (py_in ''aggregate'' comp) (\<lambda>has.
         if \<not> has then Inr [Graph (CompositionMissingAggregate i)]
         else
           bind_r (py_getitem comp ''aggregate'') (\<lambda>a.
             Inr (if a \<in> set (map JStr valid_aggregates) then []
                  else [Graph (InvalidAggregate a)]))))"

definition vulnerabilities_level :: "json \<Rightarrow> string \<Rightarrow> issue list res" where
  "vulnerabilities_level d version =
     bind_r (py_in ''vulnerabilities'' d) (\<lambda>has.
       Inr (if has \<and> str_lt version ''1.4'' then [Graph (VulnerabilitiesNotAvailable version)]
            else []))"

definition external_references_level :: "pylib \<Rightarrow> json \<Rightarrow> issue list res" where
  "external_references_level lib d =
     for_field d ''externalReferences'' (\<lambda>i ref.
       validate_external_reference lib ref (idx_path ''externalReferences'' i))"

subsection \<open>The whole run\<close>

definition validate_state :: "pylib \<Rightarrow> string \<Rightarrow> vstate \<Rightarrow> vstate res" where
  "validate_state lib version s0 =
     bind_r (extend_issues (document_level (data s0) version) s0) (\<lambda>s1.
     bind_r (extend_issues (metadata_level lib (data s1) version) s1) (\<lambda>s2.
     bind_r (components_level lib version s2) (\<lambda>s3.
     bind_r (metadata_bom_ref s3) (\<lambda>s4.
     bind_r (services_level lib s4) (\<lambda>s5.
     bind_r (extend_issues (dependencies_level (data s5) (bom_refs s5)) s5) (\<lambda>s6.
     bind_r (extend_issues (compositions_level (data s6)) s6) (\<lambda>s7.
     bind_r (extend_issues (vulnerabilities_level (data s7) version) s7) (\<lambda>s8.
       extend_issues (external_references_level lib (data s8)) s8))))))))"

definition validate_complete_cyclonedx_schema :: "pylib \<Rightarrow> json \<Rightarrow> string \<Rightarrow> issue list res" where
  "validate_complete_cyclonedx_schema lib d version =
     bind_r (validate_state lib version \<lparr>data = d, issues = [], bom_refs = {}\<rparr>)
       (\<lambda>s. Inr (issues s))"

section \<open>Documents used as examples\<close>

text \<open>The library of the examples: its URL parser rejects every string (no example has a
  URL), its timestamp parser is the documented grammar.\<close>

definition example_library :: pylib where
  "example_library = \<lparr>urlparse = (\<lambda>s. None), fromisoformat = documented_isoformat\<rparr>"

text \<open>The document of the specification's first concrete scenario.\<close>

definition scenario_document :: json where
  "scenario_document =
     JObj [(''bomFormat'', JStr ''CycloneDX''), (''specVersion'', JStr ''1.3''), (''version'', JInt 1),
           (''metadata'', JObj [(''component'',
              JObj [(''type'', JStr ''application''), (''name'', JStr ''app'')])]),
           (''components'', JArr [JObj [(''type'', JStr ''library''), (''bom-ref'', JStr ''lib1''),
              (''name'', JStr ''L'')]])]"

text \<open>The smallest document with the three required fields, for a given version.\<close>

definition minimal_document :: "string \<Rightarrow> json" where
  "minimal_document version =
     JObj [(''bomFormat'', JStr ''CycloneDX''), (''specVersion'', JStr version), (''version'', JInt 1)]"

section \<open>Identifiers a document declares\<close>

text \<open>The entries of a top-level array of the document, the bom-ref an entity carries,
  and the primary component of the metadata with its bom-ref.\<close>

definition top_level :: "json \<Rightarrow> string \<Rightarrow> json list" where
  "top_level d k =
     (case d of
        JObj kvs \<Rightarrow> (case map_of kvs k of Some (JArr xs) \<Rightarrow> xs | _ \<Rightarrow> [])
      | _ \<Rightarrow> [])"

definition entity_ref :: "json \<Rightarrow> json option" where
  "entity_ref e = (case e of JObj kvs \<Rightarrow> map_of kvs ''bom-ref'' | _ \<Rightarrow> None)"

definition metadata_component :: "json \<Rightarrow> json option" where
  "metadata_component d =
     (case d of
        JObj kvs \<Rightarrow>
          (case map_of kvs ''metadata'' of Some (JObj mkvs) \<Rightarrow> map_of mkvs ''component'' | _ \<Rightarrow> None)
      | _ \<Rightarrow> None)"

definition metadata_ref :: "json \<Rightarrow> json option" where
  "metadata_ref d = (case metadata_component d of None \<Rightarrow> None | Some c \<Rightarrow> entity_ref c)"

text \<open>What one round of a bom-ref collecting loop does to the state: diagnostics are
  only added, the entity's bom-ref joins the set, and a bom-ref that was already in the
  set is reported.\<close>

definition step_tracks :: "(json \<Rightarrow> issue) \<Rightarrow> json \<Rightarrow> vstate \<Rightarrow> vstate \<Rightarrow> bool" where
  "step_tracks dup x s s' =
     (set (issues s) \<subseteq> set (issues s') \<and>
      bom_refs s' = bom_refs s \<union> ref_key ` set_option (entity_ref x) \<and>
      (\<forall>r. entity_ref x = Some r \<and> ref_key r \<in> bom_refs s \<longrightarrow> dup r \<in> set (issues s')))"

text \<open>Two top-level components and a service that share one bom-ref; a component and
  the component nested in it that share one bom-ref.\<close>

definition shared_ref_document :: json where
  "shared_ref_document =
     JObj [(''bomFormat'', JStr ''CycloneDX''), (''specVersion'', JStr ''1.3''), (''version'', JInt 1),
           (''components'',
              JArr [JObj [(''type'', JStr ''library''), (''name'', JStr ''a''),
                          (''version'', JStr ''1''), (''bom-ref'', JStr ''x'')],
                    JObj [(''type'', JStr ''library''), (''name'', JStr ''b''),
                          (''version'', JStr ''1''), (''bom-ref'', JStr ''x'')]]),
           (''services'', JArr [JObj [(''name'', JStr ''s''), (''bom-ref'', JStr ''x'')]])]"

definition nested_ref_document :: json where
  "nested_ref_document =
     JObj [(''bomFormat'', JStr ''CycloneDX''), (''specVersion'', JStr ''1.3''), (''version'', JInt 1),
           (''components'',
              JArr [JObj [(''type'', JStr ''library''), (''name'', JStr ''a''),
                          (''version'', JStr ''1''), (''bom-ref'', JStr ''x''),
                          (''components'',
                             JArr [JObj [(''type'', JStr ''library''), (''name'', JStr ''b''),
                                         (''version'', JStr ''1''), (''bom-ref'', JStr ''x'')]])]])]"

text \<open>A dependency that refers to a service declared after it and to an identifier
  declared nowhere; a dependency that refers to the bom-ref of a nested component; a
  document whose timestamp is no date.\<close>

definition forward_ref_document :: json where
  "forward_ref_document =
     JObj [(''bomFormat'', JStr ''CycloneDX''), (''specVersion'', JStr ''1.3''), (''version'', JInt 1),
           (''dependencies'',
              JArr [JObj [(''ref'', JStr ''a''),
                          (''dependsOn'', JArr [JStr ''svc'', JStr ''missing''])]]),
           (''components'',
              JArr [JObj [(''type'', JStr ''library''), (''name'', JStr ''a''),
                          (''version'', JStr ''1''), (''bom-ref'', JStr ''a'')]]),
           (''services'', JArr [JObj [(''name'', JStr ''s''), (''bom-ref'', JStr ''svc'')]])]"

definition nested_dependency_document :: json where
  "nested_dependency_document =
     JObj [(''bomFormat'', JStr ''CycloneDX''), (''specVersion'', JStr ''1.3''), (''version'', JInt 1),
           (''components'',
              JArr [JObj [(''type'', JStr ''library''), (''name'', JStr ''a''),
                          (''version'', JStr ''1''), (''bom-ref'', JStr ''a''),
                          (''components'',
                             JArr [JObj [(''type'', JStr ''library''), (''name'', JStr ''n''),
                                         (''version'', JStr ''1''), (''bom-ref'', JStr ''n'')]])]]),
           (''dependencies'',
              JArr [JObj [(''ref'', JStr ''a''), (''dependsOn'', JArr [JStr ''n''])]])]"

definition unparsed_timestamp_document :: json where
  "unparsed_timestamp_document =
     JObj [(''bomFormat'', JStr ''CycloneDX''), (''specVersion'', JStr ''1.3''), (''version'', JInt 1),
           (''metadata'', JObj [(''timestamp'', JStr ''not a date'')])]"

section \<open>Timestamps as the specification writes them\<close>

text \<open>The text \<^verbatim>\<open>YYYY-MM-DDTHH:MM:SS\<close> of a date and a time of day, and the text
  \<^verbatim>\<open>+HH:MM\<close> or \<^verbatim>\<open>-HH:MM\<close> of an offset from UTC.\<close>

definition two_digits :: "nat \<Rightarrow> string" where
  "two_digits n = [digit_char (n div 10), digit_char (n mod 10)]"

definition iso_date_time :: "nat \<Rightarrow> nat \<Rightarrow> nat \<Rightarrow> nat \<Rightarrow> nat \<Rightarrow> nat \<Rightarrow> string" where
  "iso_date_time y m d h mi s =
     two_digits (y div 100) @ two_digits (y mod 100) @ ''-'' @ two_digits m @ ''-'' @ two_digits d @
     ''T'' @ two_digits h @ '':'' @ two_digits mi @ '':'' @ two_digits s"

definition utc_offset :: "bool \<Rightarrow> nat \<Rightarrow> nat \<Rightarrow> string" where
  "utc_offset west zh zm = (if west then ''-'' else ''+'') @ two_digits zh @ '':'' @ two_digits zm"

text \<open>The fields of a date and a time of day are in range.\<close>

definition plain_range :: "nat \<Rightarrow> nat \<Rightarrow> nat \<Rightarrow> nat \<Rightarrow> nat \<Rightarrow> nat \<Rightarrow> bool" where
  "plain_range y m d h mi s =
     (1 \<le> y \<and> y \<le> 9999 \<and> 1 \<le> m \<and> m \<le> 12 \<and> 1 \<le> d \<and> d \<le> days_in_month y m \<and>
      h < 24 \<and> mi < 60 \<and> s < 60)"

text \<open>The library parses the plain notations: a date and a time of day in range, alone
  or followed by an offset of less than a day.\<close>

definition parses_plain_timestamps :: "pylib \<Rightarrow> bool" where
  "parses_plain_timestamps lib =
     (\<forall>y m d h mi s west zh zm.
        plain_range y m d h mi s \<and> zh < 24 \<and> zm < 60 \<longrightarrow>
          fromisoformat lib (iso_date_time y m d h mi s) \<and>
          fromisoformat lib (iso_date_time y m d h mi s @ utc_offset west zh zm))"

section \<open>Diagnostics of the dependency stage and of the timestamp check\<close>

text \<open>The two not-found diagnostics of the dependency stage.\<close>

fun dependency_issue :: "issue \<Rightarrow> bool" where
  "dependency_issue (Graph (DependencyRefNotFound i r)) = True"
| "dependency_issue (Graph (DependsOnNotFound i j e)) = True"
| "dependency_issue _ = False"

text \<open>The not-found diagnostics together with the diagnostic of the timestamp check.\<close>

fun tracked :: "issue \<Rightarrow> bool" where
  "tracked (Doc InvalidTimestamp) = True"
| "tracked (Graph (DependencyRefNotFound i r)) = True"
| "tracked (Graph (DependsOnNotFound i j e)) = True"
| "tracked _ = False"

text \<open>A validator's result has no diagnostic of a given kind.\<close>

definition quiet :: "(issue \<Rightarrow> bool) \<Rightarrow> issue list res \<Rightarrow> bool" where
  "quiet P r = (case r of Inl e \<Rightarrow> True | Inr found \<Rightarrow> list_all (\<lambda>x. \<not> P x) found)"

text \<open>The timestamp field of the metadata.\<close>

definition metadata_timestamp :: "json \<Rightarrow> json option" where
  "metadata_timestamp d =
     (case d of
        JObj kvs \<Rightarrow>
          (case map_of kvs ''metadata'' of Some (JObj mkvs) \<Rightarrow> map_of mkvs ''timestamp'' | _ \<Rightarrow> None)
      | _ \<Rightarrow> None)"

text \<open>The timestamp of the metadata is a string that the library does not parse.\<close>

definition bad_timestamp :: "pylib \<Rightarrow> json \<Rightarrow> bool" where
  "bad_timestamp lib d =
     (case metadata_timestamp d of
        Some (JStr ts) \<Rightarrow> \<not> fromisoformat lib (replace_Z ts)
      | _ \<Rightarrow> False)"

text \<open>The bom-refs that a run has collected when it checks the dependencies: those of
  the top-level components, of the metadata component and of the services.\<close>

definition collected_refs :: "json \<Rightarrow> json set" where
  "collected_refs d =
     ref_key ` ((\<Union>x\<in>set (top_level d ''components''). set_option (entity_ref x)) \<union>
                set_option (metadata_ref d) \<union>
                (\<Union>x\<in>set (top_level d ''services''). set_option (entity_ref x)))"

section \<open>Properties\<close>

subsection \<open>Auxiliary facts\<close>

lemma show_nat_0: "show_nat 0 = ''0''"
  by code_simp

lemma vcs_leaf:
  "py_in ''components'' c = Inr False \<Longrightarrow>
   validate_component_structure u c p v = collect (component_fields u c p v)"
proof -
  assume h: "py_in ''components'' c = Inr False"
  have a: "collect (xs @ [Inr []]) = collect xs" for xs
    by (induction xs) (auto split: sum.splits)
  show ?thesis
    by (subst validate_component_structure.simps) (simp add: for_field_def h a)
qed

lemmas run_defs = validate_complete_cyclonedx_schema_def validate_state_def extend_issues_def
  document_level_def metadata_level_def components_level_def metadata_bom_ref_def services_level_def
  dependencies_level_def compositions_level_def vulnerabilities_level_def external_references_level_def
  component_step_def service_step_def note_bom_ref_def set_contains_def
  require_field_def when_field_def for_field_def required_def
  component_fields_def valid_types_def idx_path_def str_lt_def show_nat_0 vcs_leaf

lemma bind_r_Inr:
  "bind_r m f = Inr y \<Longrightarrow> \<exists>x. m = Inr x \<and> f x = Inr y"
  by (cases m) simp_all

lemma extend_issues_data: "extend_issues r s = Inr s' \<Longrightarrow> data s' = data s"
  unfolding extend_issues_def by (auto dest!: bind_r_Inr)

lemma note_bom_ref_data: "note_bom_ref dup x s = Inr s' \<Longrightarrow> data s' = data s"
  unfolding note_bom_ref_def by (auto dest!: bind_r_Inr split: if_splits)

lemma for_state_data:
  "(\<And>i x s s'. f i x s = Inr s' \<Longrightarrow> data s' = data s) \<Longrightarrow>
   for_state f i xs s = Inr s' \<Longrightarrow> data s' = data s"
proof (induction xs arbitrary: i s)
  case Nil
  then show ?case by simp
next
  case (Cons x xs)
  from Cons.prems(2) obtain s1 where a: "f i x s = Inr s1" and b: "for_state f (Suc i) xs s1 = Inr s'"
    by (auto dest!: bind_r_Inr)
  from Cons.IH[OF Cons.prems(1) b] Cons.prems(1)[OF a] show ?case by simp
qed

lemma component_step_data:
  assumes "component_step u v i x s = Inr s'"
  shows "data s' = data s"
proof -
  from assms obtain s1 where
    a: "extend_issues (validate_component_structure u x (idx_path ''components'' i) v) s = Inr s1"
    and b: "note_bom_ref (\<lambda>r. Graph (DuplicateBomRef r)) x s1 = Inr s'"
    unfolding component_step_def by (blast dest!: bind_r_Inr)
  from extend_issues_data[OF a] note_bom_ref_data[OF b] show ?thesis by simp
qed

lemma service_step_data:
  assumes "service_step u i x s = Inr s'"
  shows "data s' = data s"
proof -
  from assms obtain s1 where
    a: "extend_issues (validate_service_structure u x (idx_path ''services'' i)) s = Inr s1"
    and b: "note_bom_ref (\<lambda>r. Graph (DuplicateServiceBomRef r)) x s1 = Inr s'"
    unfolding service_step_def by (blast dest!: bind_r_Inr)
  from extend_issues_data[OF a] note_bom_ref_data[OF b] show ?thesis by simp
qed

lemma components_level_data:
  assumes "components_level u v s = Inr s'"
  shows "data s' = data s"
proof -
  from assms have
    "s' = s\<lparr>bom_refs := {}\<rparr> \<or> (\<exists>xs. for_state (component_step u v) 0 xs (s\<lparr>bom_refs := {}\<rparr>) = Inr s')"
    unfolding components_level_def by (auto dest!: bind_r_Inr split: if_splits)
  then show ?thesis
  proof
    assume "s' = s\<lparr>bom_refs := {}\<rparr>"
    then show ?thesis by simp
  next
    assume "\<exists>xs. for_state (component_step u v) 0 xs (s\<lparr>bom_refs := {}\<rparr>) = Inr s'"
    then obtain xs where "for_state (component_step u v) 0 xs (s\<lparr>bom_refs := {}\<rparr>) = Inr s'" ..
    from for_state_data[OF component_step_data this] show ?thesis by simp
  qed
qed

lemma metadata_bom_ref_data: "metadata_bom_ref s = Inr s' \<Longrightarrow> data s' = data s"
  unfolding metadata_bom_ref_def
  by (auto dest!: bind_r_Inr split: if_splits)

lemma services_level_data:
  assumes "services_level u s = Inr s'"
  shows "data s' = data s"
proof -
  from assms have "s' = s \<or> (\<exists>xs. for_state (service_step u) 0 xs s = Inr s')"
    unfolding services_level_def by (auto dest!: bind_r_Inr split: if_splits)
  then show ?thesis
  proof
    assume "s' = s"
    then show ?thesis by simp
  next
    assume "\<exists>xs. for_state (service_step u) 0 xs s = Inr s'"
    then obtain xs where "for_state (service_step u) 0 xs s = Inr s'" ..
    from for_state_data[OF service_step_data this] show ?thesis by simp
  qed
qed

lemma hex_pattern_length:
  assumes "hex_pattern n c"
  shows "length c = n \<or> (length c = n + 1 \<and> last c = CHR 0x0A)"
proof -
  from assms have t: "length (take n c) = n" and d: "drop n c = [] \<or> drop n c = [CHR 0x0A]"
    by (simp_all add: hex_pattern_def)
  from d show ?thesis
  proof
    assume "drop n c = []"
    with t show ?thesis by simp
  next
    assume e: "drop n c = [CHR 0x0A]"
    have "length c = length (take n c) + length (drop n c)"
      by (simp only: length_append[symmetric] append_take_drop_id)
    then have l: "length c = n + 1" unfolding e t by simp
    have "last c = last (take n c @ drop n c)" by simp
    also have "\<dots> = CHR 0x0A" unfolding e by simp
    finally show ?thesis using l by simp
  qed
qed

lemma hash_missing:
  "map_of kvs ''alg'' = None \<or> map_of kvs ''content'' = None \<Longrightarrow>
   validate_hash_object (JObj kvs) path = Inr [Field (HashMissingFields path)]"
  by (auto simp: validate_hash_object_def)

lemma hash_invalid_alg:
  "map_of kvs ''alg'' = Some alg \<Longrightarrow> map_of kvs ''content'' = Some content \<Longrightarrow>
   alg \<notin> set (map JStr valid_algorithms) \<Longrightarrow>
   validate_hash_object (JObj kvs) path = Inr [Field (InvalidAlgorithm path alg)]"
  by (simp add: validate_hash_object_def)

lemma hash_le1: "validate_hash_object h path = Inr is \<Longrightarrow> length is \<le> 1"
  unfolding validate_hash_object_def bind_r_def
  by (auto split: sum.splits if_splits json.splits option.splits)

lemma patterns_lookup:
  "(a, n) \<in> set patterns \<Longrightarrow>
   map_of patterns a = Some n \<and> JStr a \<in> set (map JStr valid_algorithms)"
  unfolding patterns_def valid_algorithms_def by (simp, elim disjE, simp_all)

text \<open>What the content check does for a table entry and a content string: the content
  passes exactly when it is the table's number of hexadecimal digits, followed by nothing
  or by one newline.\<close>

lemma hash_content_checked:
  assumes "(a, n) \<in> set patterns" "map_of kvs ''alg'' = Some (JStr a)"
    "map_of kvs ''content'' = Some (JStr c)"
  shows "validate_hash_object (JObj kvs) path =
           Inr (if hex_pattern n c then [] else [Field (InvalidHashContent path (JStr a))])"
proof -
  from assms(1) have l: "map_of patterns a = Some n" "JStr a \<in> set (map JStr valid_algorithms)"
    using patterns_lookup by blast+
  show ?thesis using assms(2,3) l
    by (simp add: validate_hash_object_def)
qed

text \<open>A content string of the wrong length that does not end in a newline yields exactly
  the invalid-content diagnostic.\<close>

lemma hash_wrong_length:
  assumes "(a, n) \<in> set patterns" "map_of kvs ''alg'' = Some (JStr a)"
    "map_of kvs ''content'' = Some (JStr c)" "length c \<noteq> n" "c = [] \<or> last c \<noteq> CHR 0x0A"
  shows "validate_hash_object (JObj kvs) path = Inr [Field (InvalidHashContent path (JStr a))]"
proof -
  have "\<not> hex_pattern n c"
  proof
    assume "hex_pattern n c"
    from hex_pattern_length[OF this] assms(4,5) show False by auto
  qed
  then show ?thesis using hash_content_checked[OF assms(1-3)] by simp
qed

lemma digit_char_simps:
  "digit_char 0 = CHR ''0''" "digit_char 1 = CHR ''1''" "digit_char 2 = CHR ''2''"
  "digit_char 3 = CHR ''3''" "digit_char 4 = CHR ''4''" "digit_char 5 = CHR ''5''"
  "digit_char 6 = CHR ''6''" "digit_char 7 = CHR ''7''" "digit_char 8 = CHR ''8''"
  "digit_char 9 = CHR ''9''" "digit_char (Suc 0) = CHR ''1''"
  by code_simp+

lemma below_ten: "n < 10 \<Longrightarrow> n \<in> {0, 1, 2, 3, 4, 5, 6, 7, 8, 9 :: nat}"
  by simp arith

lemma digit_char_val: "n < 10 \<Longrightarrow> digit_val (digit_char n) = Some n"
  by (drule below_ten) (auto simp add: digit_char_simps digit_val_def)

lemma digit_char_plain:
  "n < 10 \<Longrightarrow> digit_char n \<noteq> CHR ''Z'' \<and> \<not> is_sign (digit_char n)"
  by (drule below_ten) (auto simp add: digit_char_simps is_sign_def)

lemma parse_two:
  "a < 10 \<Longrightarrow> b < 10 \<Longrightarrow> parse_digits 2 [digit_char a, digit_char b] = Some (10 * a + b)"
  by (simp add: parse_digits_def digit_char_val)

lemma parse_four:
  "a < 10 \<Longrightarrow> b < 10 \<Longrightarrow> c < 10 \<Longrightarrow> d < 10 \<Longrightarrow>
   parse_digits 4 [digit_char a, digit_char b, digit_char c, digit_char d]
     = Some (1000 * a + 100 * b + 10 * c + d)"
  by (simp add: parse_digits_def digit_char_val)

lemma time_digits:
  assumes "h1 < 10" "h2 < 10" "m1 < 10" "m2 < 10" "s1 < 10" "s2 < 10"
  shows "parse_hh_mm_ss_ff
           [digit_char h1, digit_char h2, CHR '':'', digit_char m1, digit_char m2, CHR '':'',
            digit_char s1, digit_char s2]
         = Some (10 * h1 + h2, 10 * m1 + m2, 10 * s1 + s2)"
  using assms by (simp add: parse_hh_mm_ss_ff_def parse_two)

lemma offset_digits:
  assumes "h1 < 10" "h2 < 10" "m1 < 10" "m2 < 10"
  shows "parse_hh_mm_ss_ff [digit_char h1, digit_char h2, CHR '':'', digit_char m1, digit_char m2]
         = Some (10 * h1 + h2, 10 * m1 + m2, 0)"
  using assms by (simp add: parse_hh_mm_ss_ff_def parse_two)


lemma date_digits:
  assumes "y1 < 10" "y2 < 10" "y3 < 10" "y4 < 10" "m1 < 10" "m2 < 10" "d1 < 10" "d2 < 10"
    and "1 \<le> 1000 * y1 + 100 * y2 + 10 * y3 + y4"
    and "1 \<le> 10 * m1 + m2" "10 * m1 + m2 \<le> 12"
    and "1 \<le> 10 * d1 + d2"
    and "10 * d1 + d2 \<le> days_in_month (1000 * y1 + 100 * y2 + 10 * y3 + y4) (10 * m1 + m2)"
  shows "parse_isoformat_date
           [digit_char y1, digit_char y2, digit_char y3, digit_char y4, CHR ''-'',
            digit_char m1, digit_char m2, CHR ''-'', digit_char d1, digit_char d2]"
  using assms by (simp add: parse_isoformat_date_def parse_two parse_four)

lemma time_plain:
  assumes "h1 < 10" "h2 < 10" "m1 < 10" "m2 < 10" "s1 < 10" "s2 < 10"
    and "10 * h1 + h2 < 24" "10 * m1 + m2 < 60" "10 * s1 + s2 < 60"
  shows "parse_isoformat_time
           [digit_char h1, digit_char h2, CHR '':'', digit_char m1, digit_char m2, CHR '':'',
            digit_char s1, digit_char s2]"
  using assms
  by (simp add: parse_isoformat_time_def digit_char_plain is_sign_def[of "CHR '':''"] time_digits)

lemma time_offset:
  assumes "h1 < 10" "h2 < 10" "m1 < 10" "m2 < 10" "s1 < 10" "s2 < 10"
    and "10 * h1 + h2 < 24" "10 * m1 + m2 < 60" "10 * s1 + s2 < 60"
    and "is_sign c" "z1 < 10" "z2 < 10" "z3 < 10" "z4 < 10"
    and "10 * z1 + z2 < 24" "10 * z3 + z4 < 60"
  shows "parse_isoformat_time
           [digit_char h1, digit_char h2, CHR '':'', digit_char m1, digit_char m2, CHR '':'',
            digit_char s1, digit_char s2, c,
            digit_char z1, digit_char z2, CHR '':'', digit_char z3, digit_char z4]"
  using assms
  by (simp add: parse_isoformat_time_def digit_char_plain is_sign_def[of "CHR '':''"] time_digits
        offset_digits)


lemma replace_no_Z:
  "CHR ''Z'' \<notin> set s \<Longrightarrow> replace_Z (s @ t) = s @ replace_Z t"
  by (induction s) (auto simp: replace_Z_def)

lemma two_digits_below: "n < 100 \<Longrightarrow> n div 10 < 10 \<and> n mod 10 < (10::nat)"
  by (simp add: less_mult_imp_div_less)

lemma split2: "10 * (n div 10) + n mod 10 = (n::nat)"
  by simp

lemma year_digits:
  assumes "y \<le> 9999"
  shows "1000 * (y div 100 div 10) + 100 * (y div 100 mod 10) + 10 * (y mod 100 div 10) + y mod 100 mod 10
     = (y::nat) \<and> y div 100 < 100 \<and> y mod 100 < 100"
proof -
  have a: "1000 * (y div 100 div 10) + 100 * (y div 100 mod 10) = 100 * (y div 100)"
    using split2[of "y div 100"] by linarith
  have b: "10 * (y mod 100 div 10) + y mod 100 mod 10 = y mod 100" by (rule split2)
  have "1000 * (y div 100 div 10) + 100 * (y div 100 mod 10) + 10 * (y mod 100 div 10) + y mod 100 mod 10
        = 100 * (y div 100) + y mod 100"
    using a b by linarith
  moreover have "y div 100 < 100" using assms by (simp add: less_mult_imp_div_less)
  ultimately show ?thesis by simp
qed

lemma field_bounds:
  assumes "y \<le> 9999" "m \<le> 12" "d \<le> 31" "h < 24" "mi < 60" "s < 60"
  shows "(y::nat) div 100 < 100" "y mod 100 < 100" "(m::nat) < 100" "(d::nat) < 100" "(h::nat) < 100" "(mi::nat) < 100" "s < (100::nat)"
  using assms by (simp_all add: less_mult_imp_div_less)

lemma two_digits_no_Z: "n < 100 \<Longrightarrow> CHR ''Z'' \<notin> set (two_digits n)"
  using digit_char_plain[of "n div 10"] digit_char_plain[of "n mod 10"] two_digits_below[of n]
  by (auto simp: two_digits_def)

lemma iso_date_time_no_Z:
  assumes "y \<le> 9999" "m \<le> 12" "d \<le> 31" "h < 24" "mi < 60" "s < 60"
  shows "CHR ''Z'' \<notin> set (iso_date_time y m d h mi s)"
proof -
  show ?thesis
    using field_bounds[OF assms]
    by (simp add: iso_date_time_def two_digits_no_Z)
qed

lemma days_in_month_le: "days_in_month y m \<le> 31"
  by (simp add: days_in_month_def)

lemma two_digits_split:
  assumes "n < 100"
  shows "\<exists>a b. a < 10 \<and> b < 10 \<and> n = 10 * a + b \<and> two_digits n = [digit_char a, digit_char b]"
proof (intro exI conjI)
  show "n div 10 < 10" "n mod 10 < 10" using two_digits_below[OF assms] by simp_all
  show "n = 10 * (n div 10) + n mod 10" by simp
  show "two_digits n = [digit_char (n div 10), digit_char (n mod 10)]" by (simp add: two_digits_def)
qed

lemma iso_date_time_parses:
  assumes "1 \<le> y" "y \<le> 9999" "1 \<le> m" "m \<le> 12" "1 \<le> d" "d \<le> days_in_month y m"
    "h < 24" "mi < 60" "s < 60"
  shows "documented_isoformat (iso_date_time y m d h mi s)"
    and "is_sign c \<Longrightarrow> zh < 24 \<Longrightarrow> zm < 60 \<Longrightarrow>
         documented_isoformat (iso_date_time y m d h mi s @ c # two_digits zh @ '':'' @ two_digits zm)"
proof -
  have dl: "d \<le> 31" using assms(6) days_in_month_le[of y m] by simp
  note b = field_bounds[OF assms(2,4) dl assms(7,8,9)]
  obtain y1 y2 where y12: "y1 < 10" "y2 < 10" "y div 100 = 10 * y1 + y2"
      "two_digits (y div 100) = [digit_char y1, digit_char y2]"
    using two_digits_split[OF b(1)] by blast
  obtain y3 y4 where y34: "y3 < 10" "y4 < 10" "y mod 100 = 10 * y3 + y4"
      "two_digits (y mod 100) = [digit_char y3, digit_char y4]"
    using two_digits_split[OF b(2)] by blast
  obtain m1 m2 where m12: "m1 < 10" "m2 < 10" "m = 10 * m1 + m2"
      "two_digits m = [digit_char m1, digit_char m2]"
    using two_digits_split[OF b(3)] by blast
  obtain d1 d2 where d12: "d1 < 10" "d2 < 10" "d = 10 * d1 + d2"
      "two_digits d = [digit_char d1, digit_char d2]"
    using two_digits_split[OF b(4)] by blast
  obtain h1 h2 where h12: "h1 < 10" "h2 < 10" "h = 10 * h1 + h2"
      "two_digits h = [digit_char h1, digit_char h2]"
    using two_digits_split[OF b(5)] by blast
  obtain n1 n2 where n12: "n1 < 10" "n2 < 10" "mi = 10 * n1 + n2"
      "two_digits mi = [digit_char n1, digit_char n2]"
    using two_digits_split[OF b(6)] by blast
  obtain s1 s2 where s12: "s1 < 10" "s2 < 10" "s = 10 * s1 + s2"
      "two_digits s = [digit_char s1, digit_char s2]"
    using two_digits_split[OF b(7)] by blast
  have "y = 100 * (y div 100) + y mod 100" by simp
  then have yv: "y = 1000 * y1 + 100 * y2 + 10 * y3 + y4"
    unfolding y12(3) y34(3) by simp
  have shape: "iso_date_time y m d h mi s =
      [digit_char y1, digit_char y2, digit_char y3, digit_char y4, CHR ''-'',
       digit_char m1, digit_char m2, CHR ''-'', digit_char d1, digit_char d2, CHR ''T'',
       digit_char h1, digit_char h2, CHR '':'', digit_char n1, digit_char n2, CHR '':'',
       digit_char s1, digit_char s2]"
    unfolding iso_date_time_def y12(4) y34(4) m12(4) d12(4) h12(4) n12(4) s12(4) by simp
  have date: "parse_isoformat_date
           [digit_char y1, digit_char y2, digit_char y3, digit_char y4, CHR ''-'',
            digit_char m1, digit_char m2, CHR ''-'', digit_char d1, digit_char d2]"
  proof (rule date_digits)
    show "1 \<le> 1000 * y1 + 100 * y2 + 10 * y3 + y4" using assms(1) unfolding yv .
    show "1 \<le> 10 * m1 + m2" using assms(3) unfolding m12(3) .
    show "10 * m1 + m2 \<le> 12" using assms(4) unfolding m12(3) .
    show "1 \<le> 10 * d1 + d2" using assms(5) unfolding d12(3) .
    show "10 * d1 + d2 \<le> days_in_month (1000 * y1 + 100 * y2 + 10 * y3 + y4) (10 * m1 + m2)"
      using assms(6) unfolding d12(3) yv m12(3) .
  qed (fact y12 y34 m12 d12)+
  have time: "parse_isoformat_time
           [digit_char h1, digit_char h2, CHR '':'', digit_char n1, digit_char n2, CHR '':'',
            digit_char s1, digit_char s2]"
  proof (rule time_plain)
    show "10 * h1 + h2 < 24" using assms(7) unfolding h12(3) .
    show "10 * n1 + n2 < 60" using assms(8) unfolding n12(3) .
    show "10 * s1 + s2 < 60" using assms(9) unfolding s12(3) .
  qed (fact h12 n12 s12)+
  show "documented_isoformat (iso_date_time y m d h mi s)"
    unfolding shape using date time by (simp add: documented_isoformat_def)
  assume z: "is_sign c" "zh < 24" "zm < 60"
  then have zb: "zh < 100" "zm < 100" by simp_all
  obtain z1 z2 where z12: "z1 < 10" "z2 < 10" "zh = 10 * z1 + z2"
      "two_digits zh = [digit_char z1, digit_char z2]"
    using two_digits_split[OF zb(1)] by blast
  obtain z3 z4 where z34: "z3 < 10" "z4 < 10" "zm = 10 * z3 + z4"
      "two_digits zm = [digit_char z3, digit_char z4]"
    using two_digits_split[OF zb(2)] by blast
  have timez: "parse_isoformat_time
           [digit_char h1, digit_char h2, CHR '':'', digit_char n1, digit_char n2, CHR '':'',
            digit_char s1, digit_char s2, c,
            digit_char z1, digit_char z2, CHR '':'', digit_char z3, digit_char z4]"
  proof (rule time_offset)
    show "10 * h1 + h2 < 24" using assms(7) unfolding h12(3) .
    show "10 * n1 + n2 < 60" using assms(8) unfolding n12(3) .
    show "10 * s1 + s2 < 60" using assms(9) unfolding s12(3) .
    show "10 * z1 + z2 < 24" using z(2) unfolding z12(3) .
    show "10 * z3 + z4 < 60" using z(3) unfolding z34(3) .
  qed (fact h12 n12 s12 z12 z34 z)+
  show "documented_isoformat (iso_date_time y m d h mi s @ c # two_digits zh @ '':'' @ two_digits zm)"
    unfolding shape z12(4) z34(4) using date timez by (simp add: documented_isoformat_def)
qed

lemma note_bom_ref_effect:
  assumes "note_bom_ref dup e s = Inr s'"
  shows "data s' = data s \<and>
         (\<exists>new. issues s' = issues s @ new \<and> set new \<subseteq> range dup) \<and>
         bom_refs s' = bom_refs s \<union> ref_key ` set_option (entity_ref e) \<and>
         (\<forall>r. entity_ref e = Some r \<and> ref_key r \<in> bom_refs s \<longrightarrow> dup r \<in> set (issues s'))"
proof (cases e)
  case (JObj kvs)
  show ?thesis
  proof (cases "map_of kvs ''bom-ref''")
    case None
    with JObj assms show ?thesis by (simp add: note_bom_ref_def entity_ref_def)
  next
    case (Some r)
    with JObj assms show ?thesis
      by (auto simp: note_bom_ref_def entity_ref_def set_contains_def split: if_splits)
  qed
next
  case (JArr xs)
  with assms show ?thesis
    by (auto simp: note_bom_ref_def entity_ref_def split: if_splits)
next
  case (JStr t)
  with assms show ?thesis
    by (auto simp: note_bom_ref_def entity_ref_def split: if_splits)
qed (use assms in \<open>simp_all add: note_bom_ref_def\<close>)


lemma extend_issues_effect:
  "extend_issues r s = Inr s' \<Longrightarrow>
   \<exists>new. r = Inr new \<and> s' = s\<lparr>issues := issues s @ new\<rparr>"
  unfolding extend_issues_def by (cases r) auto

lemma component_step_tracks:
  assumes "component_step u v i x s = Inr s'"
  shows "step_tracks (\<lambda>r. Graph (DuplicateBomRef r)) x s s'"
proof -
  from assms obtain s1 where
    a: "extend_issues (validate_component_structure u x (idx_path ''components'' i) v) s = Inr s1"
    and b: "note_bom_ref (\<lambda>r. Graph (DuplicateBomRef r)) x s1 = Inr s'"
    unfolding component_step_def by (blast dest!: bind_r_Inr)
  from extend_issues_effect[OF a] obtain new where s1: "s1 = s\<lparr>issues := issues s @ new\<rparr>" by blast
  from note_bom_ref_effect[OF b] show ?thesis
    unfolding step_tracks_def s1 by auto
qed

lemma service_step_tracks:
  assumes "service_step u i x s = Inr s'"
  shows "step_tracks (\<lambda>r. Graph (DuplicateServiceBomRef r)) x s s'"
proof -
  from assms obtain s1 where
    a: "extend_issues (validate_service_structure u x (idx_path ''services'' i)) s = Inr s1"
    and b: "note_bom_ref (\<lambda>r. Graph (DuplicateServiceBomRef r)) x s1 = Inr s'"
    unfolding service_step_def by (blast dest!: bind_r_Inr)
  from extend_issues_effect[OF a] obtain new where s1: "s1 = s\<lparr>issues := issues s @ new\<rparr>" by blast
  from note_bom_ref_effect[OF b] show ?thesis
    unfolding step_tracks_def s1 by auto
qed

lemma loop_grows:
  assumes step: "\<And>i x s s'. f i x s = Inr s' \<Longrightarrow> step_tracks dup x s s'"
    and run: "for_state f i xs s = Inr s'"
  shows "set (issues s) \<subseteq> set (issues s') \<and>
         bom_refs s' = bom_refs s \<union> ref_key ` (\<Union>x\<in>set xs. set_option (entity_ref x))"
  using run
proof (induction xs arbitrary: i s)
  case Nil
  then show ?case by simp
next
  case (Cons x xs)
  from Cons.prems obtain s1 where a: "f i x s = Inr s1" and b: "for_state f (Suc i) xs s1 = Inr s'"
    by (auto dest!: bind_r_Inr)
  from step[OF a] Cons.IH[OF b] show ?case
    unfolding step_tracks_def by auto
qed

lemma loop_duplicate:
  assumes step: "\<And>i x s s'. f i x s = Inr s' \<Longrightarrow> step_tracks dup x s s'"
    and run: "for_state f i xs s = Inr s'"
    and k: "k < length xs" "entity_ref (xs ! k) = Some r"
    and seen: "ref_key r \<in> bom_refs s \<or> (\<exists>j<k. entity_ref (xs ! j) = Some r)"
  shows "dup r \<in> set (issues s')"
  using run k seen
proof (induction xs arbitrary: i s k)
  case Nil
  then show ?case by simp
next
  case (Cons x xs)
  from Cons.prems(1) obtain s1 where a: "f i x s = Inr s1" and b: "for_state f (Suc i) xs s1 = Inr s'"
    by (auto dest!: bind_r_Inr)
  note t = step[OF a, unfolded step_tracks_def]
  note g = loop_grows[OF step b]
  show ?case
  proof (cases k)
    case 0
    with Cons.prems have "entity_ref x = Some r" "ref_key r \<in> bom_refs s" by simp_all
    with t have "dup r \<in> set (issues s1)" by blast
    moreover from g have "set (issues s1) \<subseteq> set (issues s')" by (rule conjunct1)
    ultimately show ?thesis by (rule rev_subsetD)
  next
    case (Suc k0)
    with Cons.prems have k0: "k0 < length xs" "entity_ref (xs ! k0) = Some r" by simp_all
    have "ref_key r \<in> bom_refs s1 \<or> (\<exists>j<k0. entity_ref (xs ! j) = Some r)"
    proof -
      from Cons.prems(4) show ?thesis
      proof
        assume "ref_key r \<in> bom_refs s"
        with t show ?thesis by blast
      next
        assume "\<exists>j<k. entity_ref ((x # xs) ! j) = Some r"
        then obtain j where j: "j < k" "entity_ref ((x # xs) ! j) = Some r" by blast
        show ?thesis
        proof (cases j)
          case 0
          with j have "entity_ref x = Some r" by simp
          with t show ?thesis by auto
        next
          case (Suc j0)
          with j \<open>k = Suc k0\<close> have "j0 < k0" "entity_ref (xs ! j0) = Some r" by simp_all
          then show ?thesis by blast
        qed
      qed
    qed
    from Cons.IH[OF b k0 this] show ?thesis .
  qed
qed


lemma absent_top_level: "py_in k d = Inr False \<Longrightarrow> top_level d k = []"
  by (cases d) (auto simp: top_level_def)

lemma iterated_top_level:
  assumes "py_getitem d k = Inr v" "py_iter v = Inr xs"
  shows "xs = top_level d k \<or> (top_level d k = [] \<and> (\<forall>x\<in>set xs. entity_ref x = None))"
proof -
  from assms(1) obtain kvs where d: "d = JObj kvs" "map_of kvs k = Some v"
    by (cases d) (auto split: option.splits)
  show ?thesis
    using assms(2) d by (cases v) (auto simp: top_level_def entity_ref_def)
qed

lemma loop_over_field:
  assumes step: "\<And>i x s s'. f i x s = Inr s' \<Longrightarrow> step_tracks dup x s s'"
    and run: "bind_r (py_in k d) (\<lambda>has.
               if \<not> has then Inr s
               else bind_r (py_getitem d k) (\<lambda>v. bind_r (py_iter v) (\<lambda>xs. for_state f 0 xs s))) = Inr s'"
  shows "set (issues s) \<subseteq> set (issues s') \<and>
         bom_refs s' = bom_refs s \<union> ref_key ` (\<Union>x\<in>set (top_level d k). set_option (entity_ref x)) \<and>
         (\<forall>n r. n < length (top_level d k) \<and> entity_ref (top_level d k ! n) = Some r \<and>
                (ref_key r \<in> bom_refs s \<or> (\<exists>j<n. entity_ref (top_level d k ! j) = Some r))
                \<longrightarrow> dup r \<in> set (issues s'))"
proof -
  from run obtain has where h: "py_in k d = Inr has" by (auto dest!: bind_r_Inr)
  show ?thesis
  proof (cases has)
    case False
    with run h absent_top_level[of k d] show ?thesis by simp
  next
    case True
    with run h obtain v xs where v: "py_getitem d k = Inr v" "py_iter v = Inr xs"
      and l: "for_state f 0 xs s = Inr s'"
      by (auto dest!: bind_r_Inr)
    note g = loop_grows[OF step l]
    from iterated_top_level[OF v] show ?thesis
    proof
      assume e: "xs = top_level d k"
      have dupf: "dup r \<in> set (issues s')"
        if "n < length xs" "entity_ref (xs ! n) = Some r"
          "ref_key r \<in> bom_refs s \<or> (\<exists>j<n. entity_ref (xs ! j) = Some r)" for n r
        using loop_duplicate[OF step l that] .
      show ?thesis
      proof (intro conjI allI impI)
        show "set (issues s) \<subseteq> set (issues s')" using g by simp
        show "bom_refs s' = bom_refs s \<union>
                ref_key ` (\<Union>x\<in>set (top_level d k). set_option (entity_ref x))"
          using g e by simp
        fix n r
        assume "n < length (top_level d k) \<and> entity_ref (top_level d k ! n) = Some r \<and>
                (ref_key r \<in> bom_refs s \<or> (\<exists>j<n. entity_ref (top_level d k ! j) = Some r))"
        then show "dup r \<in> set (issues s')"
          using dupf[of n r] unfolding e by simp
      qed
    next
      assume "top_level d k = [] \<and> (\<forall>x\<in>set xs. entity_ref x = None)"
      with g show ?thesis by simp
    qed
  qed
qed

lemma components_level_effect:
  assumes "components_level u v s = Inr s'"
  shows "set (issues s) \<subseteq> set (issues s') \<and>
         bom_refs s' = ref_key ` (\<Union>x\<in>set (top_level (data s) ''components''). set_option (entity_ref x)) \<and>
         (\<forall>n r. n < length (top_level (data s) ''components'') \<and>
                entity_ref (top_level (data s) ''components'' ! n) = Some r \<and>
                (\<exists>j<n. entity_ref (top_level (data s) ''components'' ! j) = Some r)
                \<longrightarrow> Graph (DuplicateBomRef r) \<in> set (issues s'))"
  using loop_over_field[where f = "component_step u v" and s = "s\<lparr>bom_refs := {}\<rparr>"
          and dup = "\<lambda>r. Graph (DuplicateBomRef r)" and d = "data s" and k = "''components''"
          and s' = s', OF component_step_tracks]
        assms
  unfolding components_level_def by simp

lemma services_level_effect:
  assumes "services_level u s = Inr s'"
  shows "set (issues s) \<subseteq> set (issues s') \<and>
         bom_refs s' = bom_refs s \<union>
           ref_key ` (\<Union>x\<in>set (top_level (data s) ''services''). set_option (entity_ref x)) \<and>
         (\<forall>n r. n < length (top_level (data s) ''services'') \<and>
                entity_ref (top_level (data s) ''services'' ! n) = Some r \<and>
                (ref_key r \<in> bom_refs s \<or>
                 (\<exists>j<n. entity_ref (top_level (data s) ''services'' ! j) = Some r))
                \<longrightarrow> Graph (DuplicateServiceBomRef r) \<in> set (issues s'))"
  using loop_over_field[where f = "service_step u" and s = s
          and dup = "\<lambda>r. Graph (DuplicateServiceBomRef r)" and d = "data s" and k = "''services''"
          and s' = s', OF service_step_tracks]
        assms
  unfolding services_level_def by simp


lemma metadata_bom_ref_effect:
  assumes "metadata_bom_ref s = Inr s'"
  shows "s' = s\<lparr>bom_refs := bom_refs s \<union> ref_key ` set_option (metadata_ref (data s))\<rparr>"
proof -
  from assms obtain hm where hm: "py_in ''metadata'' (data s) = Inr hm"
    unfolding metadata_bom_ref_def by (auto dest!: bind_r_Inr)
  show ?thesis
  proof (cases hm)
    case False
    with hm have "metadata_component (data s) = None"
      by (cases "data s") (auto simp: metadata_component_def)
    with assms hm False show ?thesis
      by (simp add: metadata_bom_ref_def metadata_ref_def)
  next
    case True
    with assms hm obtain md hc where md: "py_getitem (data s) ''metadata'' = Inr md"
      "py_in ''component'' md = Inr hc"
      unfolding metadata_bom_ref_def by (auto dest!: bind_r_Inr)
    from md(1) obtain kvs where d: "data s = JObj kvs" "map_of kvs ''metadata'' = Some md"
      by (cases "data s") (auto split: option.splits)
    show ?thesis
    proof (cases hc)
      case False
      with md(2) have "metadata_component (data s) = None"
        using d by (cases md) (auto simp: metadata_component_def)
      with assms hm True md False show ?thesis
        by (simp add: metadata_bom_ref_def metadata_ref_def)
    next
      case hcT: True
      with assms hm True md obtain c hb where c: "py_getitem md ''component'' = Inr c"
        "py_in ''bom-ref'' c = Inr hb"
        unfolding metadata_bom_ref_def by (auto dest!: bind_r_Inr)
      from c(1) obtain mkvs where m: "md = JObj mkvs" "map_of mkvs ''component'' = Some c"
        by (cases md) (auto split: option.splits)
      have mc: "metadata_component (data s) = Some c"
        using d m by (simp add: metadata_component_def)
      show ?thesis
      proof (cases hb)
        case False
        with c(2) have "entity_ref c = None"
          by (cases c) (auto simp: entity_ref_def)
        with assms hm True md hcT c False mc show ?thesis
          by (simp add: metadata_bom_ref_def metadata_ref_def)
      next
        case hbT: True
        with assms hm True md hcT c obtain r where r: "py_getitem c ''bom-ref'' = Inr r"
          unfolding metadata_bom_ref_def by (auto dest!: bind_r_Inr)
        then have "entity_ref c = Some r"
          by (cases c) (auto simp: entity_ref_def split: option.splits)
        with assms hm True md hcT c hbT r mc show ?thesis
          by (auto simp: metadata_bom_ref_def metadata_ref_def split: if_splits)
      qed
    qed
  qed
qed

lemma run_stages:
  assumes "validate_complete_cyclonedx_schema u d v = Inr found"
  shows "\<exists>n1 n2 s3 s4 s5 n6 n7 n8 n9.
           document_level d v = Inr n1 \<and> metadata_level u d v = Inr n2 \<and>
           components_level u v \<lparr>data = d, issues = n1 @ n2, bom_refs = {}\<rparr> = Inr s3 \<and>
           metadata_bom_ref s3 = Inr s4 \<and> services_level u s4 = Inr s5 \<and>
           data s3 = d \<and> data s4 = d \<and> data s5 = d \<and>
           dependencies_level d (bom_refs s5) = Inr n6 \<and> compositions_level d = Inr n7 \<and>
           vulnerabilities_level d v = Inr n8 \<and> external_references_level u d = Inr n9 \<and>
           found = issues s5 @ n6 @ n7 @ n8 @ n9"
proof -
  let ?s0 = "\<lparr>data = d, issues = [], bom_refs = {}\<rparr>"
  from assms obtain s9 where run: "validate_state u v ?s0 = Inr s9" and f: "found = issues s9"
    unfolding validate_complete_cyclonedx_schema_def by (auto dest!: bind_r_Inr)
  from run obtain s1 s2 s3 s4 s5 s6 s7 s8 where st:
    "extend_issues (document_level (data ?s0) v) ?s0 = Inr s1"
    "extend_issues (metadata_level u (data s1) v) s1 = Inr s2"
    "components_level u v s2 = Inr s3"
    "metadata_bom_ref s3 = Inr s4"
    "services_level u s4 = Inr s5"
    "extend_issues (dependencies_level (data s5) (bom_refs s5)) s5 = Inr s6"
    "extend_issues (compositions_level (data s6)) s6 = Inr s7"
    "extend_issues (vulnerabilities_level (data s7) v) s7 = Inr s8"
    "extend_issues (external_references_level u (data s8)) s8 = Inr s9"
    unfolding validate_state_def by (blast dest!: bind_r_Inr)
  from extend_issues_effect[OF st(1)] obtain n1 where
    n1: "document_level d v = Inr n1" "s1 = \<lparr>data = d, issues = n1, bom_refs = {}\<rparr>" by auto
  from extend_issues_effect[OF st(2)] n1 obtain n2 where
    n2: "metadata_level u d v = Inr n2" "s2 = \<lparr>data = d, issues = n1 @ n2, bom_refs = {}\<rparr>" by auto
  have d3: "data s3 = d" using components_level_data[OF st(3)] n2 by simp
  have d4: "data s4 = d" using metadata_bom_ref_data[OF st(4)] d3 by simp
  have d5: "data s5 = d" using services_level_data[OF st(5)] d4 by simp
  from extend_issues_effect[OF st(6)] d5 obtain n6 where
    n6: "dependencies_level d (bom_refs s5) = Inr n6" "s6 = s5\<lparr>issues := issues s5 @ n6\<rparr>" by auto
  from extend_issues_effect[OF st(7)] n6 d5 obtain n7 where
    n7: "compositions_level d = Inr n7" "s7 = s5\<lparr>issues := issues s5 @ n6 @ n7\<rparr>" by auto
  from extend_issues_effect[OF st(8)] n7 d5 obtain n8 where
    n8: "vulnerabilities_level d v = Inr n8" "s8 = s5\<lparr>issues := issues s5 @ n6 @ n7 @ n8\<rparr>" by auto
  from extend_issues_effect[OF st(9)] n8 d5 obtain n9 where
    n9: "external_references_level u d = Inr n9" "s9 = s5\<lparr>issues := issues s5 @ n6 @ n7 @ n8 @ n9\<rparr>"
    by auto
  show ?thesis
    using n1(1) n2(1) st(3)[unfolded n2(2)] st(4) st(5) d3 d4 d5 n6(1) n7(1) n8(1) n9(1) f n9(2)
    by auto
qed


lemma show_nat_1: "show_nat (Suc 0) = ''1''"
  by code_simp

lemma vcs_obj:
  "validate_component_structure u (JObj kvs) p v =
     collect
      (component_fields u (JObj kvs) p v @
       [for_field (JObj kvs) ''components'' (\<lambda>i nested.
          validate_component_structure u nested (idx_path (p @ ''.components'') i) v)])"
  by (rule validate_component_structure.simps)

lemma shared_ref_run:
  "validate_complete_cyclonedx_schema example_library shared_ref_document ''1.3'' =
     Inr [Graph (DuplicateBomRef (JStr ''x'')), Graph (DuplicateServiceBomRef (JStr ''x''))]"
  by (simp add: shared_ref_document_def run_defs show_nat_1 validate_service_structure_def)

lemma example_library_parses_plain: "parses_plain_timestamps example_library"
  unfolding parses_plain_timestamps_def plain_range_def
proof (intro allI impI conjI)
  fix y m d h mi s zh zm :: nat and west :: bool
  assume a: "(1 \<le> y \<and> y \<le> 9999 \<and> 1 \<le> m \<and> m \<le> 12 \<and> 1 \<le> d \<and> d \<le> days_in_month y m \<and>
              h < 24 \<and> mi < 60 \<and> s < 60) \<and> zh < 24 \<and> zm < 60"
  then have r: "1 \<le> y" "y \<le> 9999" "1 \<le> m" "m \<le> 12" "1 \<le> d" "d \<le> days_in_month y m"
    "h < 24" "mi < 60" "s < 60" and z: "zh < 24" "zm < 60" by simp_all
  have sg: "is_sign (if west then CHR ''-'' else CHR ''+'')"
    by (simp add: is_sign_def)
  show "fromisoformat example_library (iso_date_time y m d h mi s)"
    using iso_date_time_parses(1)[OF r] by (simp add: example_library_def)
  show "fromisoformat example_library (iso_date_time y m d h mi s @ utc_offset west zh zm)"
    unfolding utc_offset_def
    using iso_date_time_parses(2)[OF r sg z] by (cases west) (simp_all add: example_library_def)
qed

text \<open>Which stages can emit which diagnostics.\<close>

lemma tracked_iff: "tracked x = (dependency_issue x \<or> x = Doc InvalidTimestamp)"
  by (cases x rule: tracked.cases) simp_all

lemma quiet_Inl: "quiet P (Inl e)"
  by (simp add: quiet_def)

lemma quiet_Nil: "quiet P (Inr [])"
  by (simp add: quiet_def)

lemma quiet_single: "\<not> P x \<Longrightarrow> quiet P (Inr [x])"
  by (simp add: quiet_def)

lemma quiet_Inr_if: "quiet P (Inr a) \<Longrightarrow> quiet P (Inr b) \<Longrightarrow> quiet P (Inr (if c then a else b))"
  by simp

lemma quiet_if: "(c \<Longrightarrow> quiet P a) \<Longrightarrow> (\<not> c \<Longrightarrow> quiet P b) \<Longrightarrow> quiet P (if c then a else b)"
  by simp

lemma quiet_bind: "(\<And>x. m = Inr x \<Longrightarrow> quiet P (f x)) \<Longrightarrow> quiet P (bind_r m f)"
  by (cases m) (simp_all add: quiet_def)

lemma quiet_collect: "list_all (quiet P) rs \<Longrightarrow> quiet P (collect rs)"
  by (induction rs) (auto simp: quiet_def split: sum.splits)

lemma quiet_for_enum: "(\<And>i x. x \<in> set xs \<Longrightarrow> quiet P (f i x)) \<Longrightarrow> quiet P (for_enum f n xs)"
proof (induction xs arbitrary: n)
  case Nil
  show ?case by (simp add: quiet_def)
next
  case (Cons a xs)
  have "quiet P (f n a)" "quiet P (for_enum f (Suc n) xs)"
    using Cons by simp_all
  then show ?case by (auto simp: quiet_def split: sum.splits)
qed

lemma quiet_for_field:
  "(\<And>v xs i x. py_getitem obj k = Inr v \<Longrightarrow> py_iter v = Inr xs \<Longrightarrow> x \<in> set xs \<Longrightarrow> quiet P (f i x))
   \<Longrightarrow> quiet P (for_field obj k f)"
  unfolding for_field_def
  by (intro quiet_bind quiet_if quiet_Nil quiet_for_enum) blast

lemma quiet_when_field: "(\<And>x. quiet P (f x)) \<Longrightarrow> quiet P (when_field obj k f)"
  unfolding when_field_def
  by (intro quiet_bind quiet_if quiet_Nil)

lemma quiet_require_field: "\<not> P d \<Longrightarrow> quiet P (require_field obj k d)"
  unfolding require_field_def
  by (intro quiet_bind quiet_Inr_if quiet_Nil quiet_single)

lemma quiet_list_Nil: "list_all (quiet P) []"
  by simp

lemma quiet_list_Cons: "quiet P r \<Longrightarrow> list_all (quiet P) rs \<Longrightarrow> list_all (quiet P) (r # rs)"
  by simp

lemmas quiet_intros = quiet_Inl quiet_Nil quiet_single quiet_Inr_if quiet_if quiet_bind quiet_collect
  quiet_for_enum quiet_for_field quiet_when_field quiet_require_field quiet_list_Nil quiet_list_Cons

lemma quiet_hash: "quiet tracked (validate_hash_object h p)"
  unfolding quiet_def validate_hash_object_def bind_r_def
  by (auto split: sum.splits if_splits json.splits option.splits)

lemma quiet_license: "quiet tracked (validate_license_choice c p)"
  unfolding validate_license_choice_def
  by (intro quiet_intros) simp_all

lemma quiet_contact: "quiet tracked (validate_organizational_contact c p)"
  unfolding validate_organizational_contact_def
  by (intro quiet_intros) simp_all

lemma quiet_timestamp: "\<not> P bad \<Longrightarrow> quiet P (timestamp_check lib ts bad)"
  unfolding timestamp_check_def
  by (intro quiet_intros) simp_all

lemma quiet_entity: "quiet tracked (validate_organizational_entity lib e p)"
  unfolding validate_organizational_entity_def
  by (intro quiet_intros quiet_contact) simp_all

lemma quiet_properties: "quiet tracked (validate_properties_array x p)"
  unfolding validate_properties_array_def
  by (intro quiet_intros) simp_all

lemma quiet_pedigree: "quiet tracked (validate_pedigree lib x p)"
  unfolding validate_pedigree_def commit_action_check_def
  by (intro quiet_intros quiet_timestamp) simp_all

lemma quiet_evidence: "quiet tracked (validate_evidence x p v)"
  unfolding validate_evidence_def
  by (intro quiet_intros) simp_all

lemma quiet_external_reference: "quiet tracked (validate_external_reference lib x p)"
  unfolding validate_external_reference_def
  by (intro quiet_intros quiet_hash) simp_all

lemma quiet_service: "quiet tracked (validate_service_structure lib x p)"
  unfolding validate_service_structure_def
  by (intro quiet_intros quiet_entity) simp_all

lemma quiet_component_fields: "list_all (quiet tracked) (component_fields lib c p v)"
  unfolding component_fields_def
  by (intro quiet_intros quiet_entity quiet_hash quiet_license quiet_external_reference
        quiet_pedigree quiet_evidence quiet_properties) simp_all

lemma quiet_component: "quiet tracked (validate_component_structure lib c p v)"
proof (induction lib c p v rule: validate_component_structure.induct)
  case (1 lib c p v)
  have "quiet tracked (for_field c ''components'' (\<lambda>i nested.
          validate_component_structure lib nested (idx_path (p @ ''.components'') i) v))"
    by (rule quiet_for_field) (rule "1.IH")
  then show ?case
    by (subst validate_component_structure.simps)
       (simp add: quiet_collect quiet_component_fields)
qed

lemma quiet_document: "quiet tracked (document_level d v)"
  unfolding document_level_def required_def list.map
  by (intro quiet_intros) simp_all

lemma quiet_compositions: "quiet tracked (compositions_level d)"
  unfolding compositions_level_def
  by (intro quiet_intros) simp_all

lemma quiet_vulnerabilities: "quiet tracked (vulnerabilities_level d v)"
  unfolding vulnerabilities_level_def
  by (intro quiet_intros) simp_all

lemma quiet_external_references: "quiet tracked (external_references_level lib d)"
  unfolding external_references_level_def
  by (intro quiet_intros quiet_external_reference)



lemma quiet_filter: "quiet P (Inr new) \<Longrightarrow> filter P new = []"
  by (simp add: quiet_def list_all_iff filter_empty_conv)

lemma quiet_member: "quiet P (Inr new) \<Longrightarrow> P x \<Longrightarrow> x \<notin> set new"
  by (auto simp: quiet_def list_all_iff)

lemma quiet_dependencies: "quiet (\<lambda>x. x = Doc InvalidTimestamp) (dependencies_level d refs)"
  unfolding dependencies_level_def dependency_check_def depends_on_check_def
  by (intro quiet_intros) simp_all

lemma collect_head:
  assumes "bind_r m (\<lambda>x. collect (r x # rs x)) = Inr out" "\<And>x. list_all (quiet P) (rs x)"
  shows "\<exists>x a b. m = Inr x \<and> r x = Inr a \<and> out = a @ b \<and> filter P b = []"
proof -
  from bind_r_Inr[OF assms(1)] obtain x where x: "m = Inr x" "collect (r x # rs x) = Inr out"
    by blast
  from x(2) obtain a b where ab: "r x = Inr a" "collect (rs x) = Inr b" "out = a @ b"
    by (auto split: sum.splits)
  from quiet_collect[OF assms(2), of x] ab(2) have "filter P b = []"
    by (simp add: quiet_filter)
  with x(1) ab show ?thesis by blast
qed

lemma timestamp_stage:
  assumes "py_get d ''metadata'' (JObj []) = Inr metadata"
    "when_field metadata ''timestamp'' (\<lambda>ts. timestamp_check lib ts bad) = Inr a"
  shows "a = (if bad_timestamp lib d then [bad] else [])"
proof (cases d)
  case (JObj kvs)
  show ?thesis
  proof (cases metadata)
    case (JObj m)
    then have mt: "metadata_timestamp d = map_of m ''timestamp''"
      using assms(1) \<open>d = JObj kvs\<close>
      by (auto simp: metadata_timestamp_def split: option.splits)
    show ?thesis
    proof (cases "map_of m ''timestamp''")
      case None
      with assms(2) JObj mt show ?thesis
        by (simp add: when_field_def bad_timestamp_def)
    next
      case (Some ts)
      with assms(2) JObj have t: "timestamp_check lib ts bad = Inr a"
        by (simp add: when_field_def)
      then obtain s where s: "ts = JStr s"
        by (cases ts) (simp_all add: timestamp_check_def)
      with t Some mt show ?thesis
        by (auto simp: timestamp_check_def bad_timestamp_def)
    qed
  next
    case (JArr xs)
    then have "metadata_timestamp d = None"
      using assms(1) \<open>d = JObj kvs\<close>
      by (auto simp: metadata_timestamp_def split: option.splits)
    with assms(2) JArr show ?thesis
      by (auto simp: when_field_def bad_timestamp_def split: if_splits)
  next
    case (JStr s)
    then have "metadata_timestamp d = None"
      using assms(1) \<open>d = JObj kvs\<close>
      by (auto simp: metadata_timestamp_def split: option.splits)
    with assms(2) JStr show ?thesis
      by (auto simp: when_field_def bad_timestamp_def split: if_splits)
  qed (use assms(2) in \<open>simp_all add: when_field_def\<close>)
qed (use assms(1) in simp_all)

lemma metadata_tracked:
  assumes "metadata_level lib d version = Inr n2"
  shows "filter tracked n2 = (if bad_timestamp lib d then [Doc InvalidTimestamp] else [])"
proof -
  have "\<exists>x a b. py_get d ''metadata'' (JObj []) = Inr x \<and>
          when_field x ''timestamp'' (\<lambda>ts. timestamp_check lib ts (Doc InvalidTimestamp)) = Inr a \<and>
          n2 = a @ b \<and> filter tracked b = []"
    using assms unfolding metadata_level_def
    by (rule collect_head)
       ((intro quiet_intros quiet_timestamp quiet_component quiet_contact quiet_entity quiet_license
          quiet_properties), simp_all)
  then obtain x a b where x: "py_get d ''metadata'' (JObj []) = Inr x"
    "when_field x ''timestamp'' (\<lambda>ts. timestamp_check lib ts (Doc InvalidTimestamp)) = Inr a"
    "n2 = a @ b" "filter tracked b = []" by blast
  from timestamp_stage[OF x(1,2)] x(3,4) show ?thesis by simp
qed

lemma note_bom_ref_keeps:
  assumes "note_bom_ref dup x s = Inr s'" "\<And>r. \<not> tracked (dup r)"
  shows "filter tracked (issues s') = filter tracked (issues s)"
proof -
  from note_bom_ref_effect[OF assms(1)] obtain new where
    n: "issues s' = issues s @ new" "set new \<subseteq> range dup" by blast
  from n(2) assms(2) have "filter tracked new = []"
    by (auto simp: filter_empty_conv)
  with n(1) show ?thesis by simp
qed

lemma component_step_keeps:
  assumes "component_step lib v i x s = Inr s'"
  shows "filter tracked (issues s') = filter tracked (issues s)"
proof -
  from assms obtain s1 where
    a: "extend_issues (validate_component_structure lib x (idx_path ''components'' i) v) s = Inr s1"
    and b: "note_bom_ref (\<lambda>r. Graph (DuplicateBomRef r)) x s1 = Inr s'"
    unfolding component_step_def by (blast dest!: bind_r_Inr)
  from extend_issues_effect[OF a] obtain new where
    n: "validate_component_structure lib x (idx_path ''components'' i) v = Inr new"
       "s1 = s\<lparr>issues := issues s @ new\<rparr>" by blast
  from quiet_component[of lib x "idx_path ''components'' i" v] n(1)
  have "filter tracked new = []" by (simp add: quiet_filter)
  with note_bom_ref_keeps[OF b] n(2) show ?thesis by simp
qed

lemma service_step_keeps:
  assumes "service_step lib i x s = Inr s'"
  shows "filter tracked (issues s') = filter tracked (issues s)"
proof -
  from assms obtain s1 where
    a: "extend_issues (validate_service_structure lib x (idx_path ''services'' i)) s = Inr s1"
    and b: "note_bom_ref (\<lambda>r. Graph (DuplicateServiceBomRef r)) x s1 = Inr s'"
    unfolding service_step_def by (blast dest!: bind_r_Inr)
  from extend_issues_effect[OF a] obtain new where
    n: "validate_service_structure lib x (idx_path ''services'' i) = Inr new"
       "s1 = s\<lparr>issues := issues s @ new\<rparr>" by blast
  from quiet_service[of lib x "idx_path ''services'' i"] n(1)
  have "filter tracked new = []" by (simp add: quiet_filter)
  with note_bom_ref_keeps[OF b] n(2) show ?thesis by simp
qed

lemma for_state_keeps:
  assumes step: "\<And>i x s s'. f i x s = Inr s' \<Longrightarrow>
      filter tracked (issues s') = filter tracked (issues s)"
    and run: "for_state f i xs s = Inr s'"
  shows "filter tracked (issues s') = filter tracked (issues s)"
  using run
proof (induction xs arbitrary: i s)
  case Nil
  then show ?case by simp
next
  case (Cons x xs)
  from Cons.prems obtain s1 where a: "f i x s = Inr s1" and b: "for_state f (Suc i) xs s1 = Inr s'"
    by (auto dest!: bind_r_Inr)
  from step[OF a] Cons.IH[OF b] show ?case by simp
qed

lemma components_level_keeps:
  assumes "components_level lib v s = Inr s'"
  shows "filter tracked (issues s') = filter tracked (issues s)"
proof -
  from assms have
    "s' = s\<lparr>bom_refs := {}\<rparr> \<or> (\<exists>xs. for_state (component_step lib v) 0 xs (s\<lparr>bom_refs := {}\<rparr>) = Inr s')"
    unfolding components_level_def by (auto dest!: bind_r_Inr split: if_splits)
  then show ?thesis
  proof
    assume "s' = s\<lparr>bom_refs := {}\<rparr>"
    then show ?thesis by simp
  next
    assume "\<exists>xs. for_state (component_step lib v) 0 xs (s\<lparr>bom_refs := {}\<rparr>) = Inr s'"
    then obtain xs where "for_state (component_step lib v) 0 xs (s\<lparr>bom_refs := {}\<rparr>) = Inr s'" ..
    from for_state_keeps[OF component_step_keeps this] show ?thesis by simp
  qed
qed

lemma services_level_keeps:
  assumes "services_level lib s = Inr s'"
  shows "filter tracked (issues s') = filter tracked (issues s)"
proof -
  from assms have "s' = s \<or> (\<exists>xs. for_state (service_step lib) 0 xs s = Inr s')"
    unfolding services_level_def by (auto dest!: bind_r_Inr split: if_splits)
  then show ?thesis
  proof
    assume "s' = s"
    then show ?thesis by simp
  next
    assume "\<exists>xs. for_state (service_step lib) 0 xs s = Inr s'"
    then obtain xs where "for_state (service_step lib) 0 xs s = Inr s'" ..
    from for_state_keeps[OF service_step_keeps this] show ?thesis by simp
  qed
qed

lemma for_enum_Cons_Inr:
  "for_enum f n (x # xs) = Inr out \<Longrightarrow>
   \<exists>a b. f n x = Inr a \<and> for_enum f (Suc n) xs = Inr b \<and> out = a @ b"
  by (auto split: sum.splits)

lemma for_enum_each:
  "for_enum f n xs = Inr out \<Longrightarrow> i < length xs \<Longrightarrow>
   \<exists>a. f (n + i) (xs ! i) = Inr a \<and> set a \<subseteq> set out"
proof (induction xs arbitrary: n i out)
  case Nil
  then show ?case by simp
next
  case (Cons x xs)
  from for_enum_Cons_Inr[OF Cons.prems(1)] obtain a b where
    ab: "f n x = Inr a" "for_enum f (Suc n) xs = Inr b" "out = a @ b" by blast
  show ?case
  proof (cases i)
    case 0
    with ab show ?thesis by simp
  next
    case (Suc i0)
    with Cons.prems(2) have "i0 < length xs" by simp
    from Cons.IH[OF ab(2) this] Suc ab(3) show ?thesis by auto
  qed
qed

lemma for_enum_origin:
  "for_enum f n xs = Inr out \<Longrightarrow> x \<in> set out \<Longrightarrow>
   \<exists>i<length xs. \<exists>a. f (n + i) (xs ! i) = Inr a \<and> x \<in> set a"
proof (induction xs arbitrary: n out)
  case Nil
  then show ?case by simp
next
  case (Cons y xs)
  from for_enum_Cons_Inr[OF Cons.prems(1)] obtain a b where
    ab: "f n y = Inr a" "for_enum f (Suc n) xs = Inr b" "out = a @ b" by blast
  from Cons.prems(2) ab(3) have "x \<in> set a \<or> x \<in> set b" by simp
  then show ?case
  proof
    assume "x \<in> set a"
    with ab(1) have "0 < length (y # xs) \<and> (\<exists>a. f (n + 0) ((y # xs) ! 0) = Inr a \<and> x \<in> set a)"
      by simp
    then show ?thesis by blast
  next
    assume "x \<in> set b"
    from Cons.IH[OF ab(2) this] obtain i a' where
      i: "i < length xs" "f (Suc n + i) (xs ! i) = Inr a'" "x \<in> set a'" by blast
    then have "Suc i < length (y # xs) \<and>
        (\<exists>a. f (n + Suc i) ((y # xs) ! Suc i) = Inr a \<and> x \<in> set a)" by simp
    then show ?thesis by blast
  qed
qed


lemma depends_on_check_out:
  "depends_on_check refs i j e = Inr a \<Longrightarrow>
   a = (if ref_key e \<in> refs then [] else [Graph (DependsOnNotFound i j e)])"
  unfolding depends_on_check_def set_contains_def
  by (auto split: if_splits)

lemma ref_check_out:
  assumes "bind_r (py_in ''ref'' dep) (\<lambda>has.
         if \<not> has then Inr [Graph (DependencyMissingRef i)]
         else
           bind_r (py_getitem dep ''ref'') (\<lambda>r.
           bind_r (set_contains refs r) (\<lambda>found.
             Inr (if found then [] else [Graph (DependencyRefNotFound i r)])))) = Inr a"
  shows "a = [Graph (DependencyMissingRef i)] \<or>
         (\<exists>r. py_getitem dep ''ref'' = Inr r \<and>
              a = (if ref_key r \<in> refs then [] else [Graph (DependencyRefNotFound i r)]))"
proof -
  from assms obtain has where h: "py_in ''ref'' dep = Inr has"
    by (auto dest!: bind_r_Inr)
  show ?thesis
  proof (cases has)
    case False
    with assms h show ?thesis by simp
  next
    case True
    with assms h obtain r fnd where
      r: "py_getitem dep ''ref'' = Inr r" "set_contains refs r = Inr fnd"
         "a = (if fnd then [] else [Graph (DependencyRefNotFound i r)])"
      by (auto dest!: bind_r_Inr)
    from r(2) have "fnd = (ref_key r \<in> refs)"
      by (simp add: set_contains_def split: if_splits)
    with r(1,3) show ?thesis by blast
  qed
qed

lemma depends_on_part:
  assumes "for_field dep ''dependsOn'' (depends_on_check refs i) = Inr b"
  shows "b = [] \<or> (\<exists>v es. py_getitem dep ''dependsOn'' = Inr v \<and> py_iter v = Inr es \<and>
                     for_enum (depends_on_check refs i) 0 es = Inr b)"
  using assms unfolding for_field_def
  by (auto dest!: bind_r_Inr split: if_splits)

lemma dependency_check_parts:
  assumes "dependency_check refs i dep = Inr a"
  shows "\<exists>a1 a2.
           bind_r (py_in ''ref'' dep) (\<lambda>has.
             if \<not> has then Inr [Graph (DependencyMissingRef i)]
             else
               bind_r (py_getitem dep ''ref'') (\<lambda>r.
               bind_r (set_contains refs r) (\<lambda>found.
                 Inr (if found then [] else [Graph (DependencyRefNotFound i r)])))) = Inr a1 \<and>
           for_field dep ''dependsOn'' (depends_on_check refs i) = Inr a2 \<and> a = a1 @ a2"
  using assms unfolding dependency_check_def
  by (auto split: sum.splits)

lemma depends_on_members:
  assumes "for_enum (depends_on_check refs i) 0 es = Inr b"
  shows "(Graph (DependsOnNotFound i' j e) \<in> set b) =
         (i' = i \<and> j < length es \<and> e = es ! j \<and> ref_key e \<notin> refs)"
proof
  assume "Graph (DependsOnNotFound i' j e) \<in> set b"
  from for_enum_origin[OF assms this] obtain n a where
    n: "n < length es" "depends_on_check refs i (0 + n) (es ! n) = Inr a"
       "Graph (DependsOnNotFound i' j e) \<in> set a" by blast
  from depends_on_check_out[OF n(2)] n(3) n(1)
  show "i' = i \<and> j < length es \<and> e = es ! j \<and> ref_key e \<notin> refs"
    by (auto split: if_splits)
next
  assume h: "i' = i \<and> j < length es \<and> e = es ! j \<and> ref_key e \<notin> refs"
  then have "j < length es" by simp
  from for_enum_each[OF assms this] obtain a where
    a: "depends_on_check refs i (0 + j) (es ! j) = Inr a" "set a \<subseteq> set b" by blast
  from depends_on_check_out[OF a(1)] h have "Graph (DependsOnNotFound i' j e) \<in> set a" by auto
  with a(2) show "Graph (DependsOnNotFound i' j e) \<in> set b" by blast
qed


lemma ref_check_members:
  assumes "bind_r (py_in ''ref'' dep) (\<lambda>has.
         if \<not> has then Inr [Graph (DependencyMissingRef i)]
         else
           bind_r (py_getitem dep ''ref'') (\<lambda>r.
           bind_r (set_contains refs r) (\<lambda>found.
             Inr (if found then [] else [Graph (DependencyRefNotFound i r)])))) = Inr a"
    and "x \<in> set a"
  shows "x = Graph (DependencyMissingRef i) \<or>
         (\<exists>r. py_getitem dep ''ref'' = Inr r \<and> ref_key r \<notin> refs \<and>
              x = Graph (DependencyRefNotFound i r))"
proof -
  from ref_check_out[OF assms(1)] show ?thesis
  proof
    assume "a = [Graph (DependencyMissingRef i)]"
    with assms(2) show ?thesis by simp
  next
    assume "\<exists>r. py_getitem dep ''ref'' = Inr r \<and>
              a = (if ref_key r \<in> refs then [] else [Graph (DependencyRefNotFound i r)])"
    then obtain r where r: "py_getitem dep ''ref'' = Inr r"
      "a = (if ref_key r \<in> refs then [] else [Graph (DependencyRefNotFound i r)])" by blast
    show ?thesis
    proof (cases "ref_key r \<in> refs")
      case True
      with r(2) assms(2) show ?thesis by simp
    next
      case False
      with r(2) assms(2) have "x = Graph (DependencyRefNotFound i r)" by simp
      with r(1) False show ?thesis by blast
    qed
  qed
qed

lemma depends_on_part_members:
  assumes "for_field dep ''dependsOn'' (depends_on_check refs i) = Inr b" "x \<in> set b"
  shows "\<exists>v es j. py_getitem dep ''dependsOn'' = Inr v \<and> py_iter v = Inr es \<and> j < length es \<and>
           ref_key (es ! j) \<notin> refs \<and> x = Graph (DependsOnNotFound i j (es ! j))"
proof -
  from depends_on_part[OF assms(1)] assms(2) obtain v es where
    l: "py_getitem dep ''dependsOn'' = Inr v" "py_iter v = Inr es"
       "for_enum (depends_on_check refs i) 0 es = Inr b" by auto
  from for_enum_origin[OF l(3) assms(2)] obtain n a where
    n: "n < length es" "depends_on_check refs i (0 + n) (es ! n) = Inr a" "x \<in> set a" by blast
  from depends_on_check_out[OF n(2)] have
    a: "a = (if ref_key (es ! n) \<in> refs then [] else [Graph (DependsOnNotFound i n (es ! n))])"
    by simp
  show ?thesis
  proof (cases "ref_key (es ! n) \<in> refs")
    case True
    with a n(3) show ?thesis by simp
  next
    case False
    with a n(3) have "x = Graph (DependsOnNotFound i n (es ! n))" by simp
    with l(1,2) n(1) False show ?thesis by blast
  qed
qed

lemma dependency_check_index:
  assumes "dependency_check refs i dep = Inr a"
  shows "(Graph (DependencyRefNotFound i' r) \<in> set a \<longrightarrow> i' = i) \<and>
         (Graph (DependsOnNotFound i' j e) \<in> set a \<longrightarrow> i' = i)"
proof -
  from dependency_check_parts[OF assms] obtain a1 a2 where p:
    "bind_r (py_in ''ref'' dep) (\<lambda>has.
             if \<not> has then Inr [Graph (DependencyMissingRef i)]
             else
               bind_r (py_getitem dep ''ref'') (\<lambda>r.
               bind_r (set_contains refs r) (\<lambda>found.
                 Inr (if found then [] else [Graph (DependencyRefNotFound i r)])))) = Inr a1"
    "for_field dep ''dependsOn'' (depends_on_check refs i) = Inr a2" "a = a1 @ a2" by blast
  note m1 = ref_check_members[OF p(1)]
  note m2 = depends_on_part_members[OF p(2)]
  show ?thesis
  proof (intro conjI impI)
    assume "Graph (DependencyRefNotFound i' r) \<in> set a"
    with p(3) have "Graph (DependencyRefNotFound i' r) \<in> set a1 \<or>
                    Graph (DependencyRefNotFound i' r) \<in> set a2" by simp
    then show "i' = i"
    proof
      assume "Graph (DependencyRefNotFound i' r) \<in> set a1"
      from m1[OF this] show ?thesis by auto
    next
      assume "Graph (DependencyRefNotFound i' r) \<in> set a2"
      from m2[OF this] show ?thesis by auto
    qed
  next
    assume "Graph (DependsOnNotFound i' j e) \<in> set a"
    with p(3) have "Graph (DependsOnNotFound i' j e) \<in> set a1 \<or>
                    Graph (DependsOnNotFound i' j e) \<in> set a2" by simp
    then show "i' = i"
    proof
      assume "Graph (DependsOnNotFound i' j e) \<in> set a1"
      from m1[OF this] show ?thesis by auto
    next
      assume "Graph (DependsOnNotFound i' j e) \<in> set a2"
      from m2[OF this] show ?thesis by auto
    qed
  qed
qed


lemma dependency_check_object:
  assumes "dependency_check refs i (JObj dep) = Inr a"
  shows "(map_of dep ''ref'' = Some r \<longrightarrow>
            (Graph (DependencyRefNotFound i r) \<in> set a) = (ref_key r \<notin> refs)) \<and>
         (map_of dep ''dependsOn'' = Some (JArr es) \<and> j < length es \<longrightarrow>
            (Graph (DependsOnNotFound i j (es ! j)) \<in> set a) = (ref_key (es ! j) \<notin> refs))"
proof -
  from dependency_check_parts[OF assms] obtain a1 a2 where p:
    "bind_r (py_in ''ref'' (JObj dep)) (\<lambda>has.
             if \<not> has then Inr [Graph (DependencyMissingRef i)]
             else
               bind_r (py_getitem (JObj dep) ''ref'') (\<lambda>r.
               bind_r (set_contains refs r) (\<lambda>found.
                 Inr (if found then [] else [Graph (DependencyRefNotFound i r)])))) = Inr a1"
    "for_field (JObj dep) ''dependsOn'' (depends_on_check refs i) = Inr a2" "a = a1 @ a2" by blast
  note m1 = ref_check_members[OF p(1)]
  note m2 = depends_on_part_members[OF p(2)]
  have r2: "Graph (DependsOnNotFound i j (es ! j)) \<notin> set a1"
  proof
    assume "Graph (DependsOnNotFound i j (es ! j)) \<in> set a1"
    from m1[OF this] show False by auto
  qed
  have d1: "Graph (DependencyRefNotFound i r) \<notin> set a2"
  proof
    assume "Graph (DependencyRefNotFound i r) \<in> set a2"
    from m2[OF this] show False by auto
  qed
  show ?thesis
  proof (intro conjI impI)
    assume h: "map_of dep ''ref'' = Some r"
    then have g: "py_getitem (JObj dep) ''ref'' = Inr r" by simp
    have "(Graph (DependencyRefNotFound i r) \<in> set a1) = (ref_key r \<notin> refs)"
    proof
      assume "Graph (DependencyRefNotFound i r) \<in> set a1"
      from m1[OF this] show "ref_key r \<notin> refs" by auto
    next
      assume n: "ref_key r \<notin> refs"
      from p(1) h have
        "a1 = (if ref_key r \<in> refs then [] else [Graph (DependencyRefNotFound i r)])"
        by (auto simp: set_contains_def split: if_splits)
      with n show "Graph (DependencyRefNotFound i r) \<in> set a1" by simp
    qed
    with d1 p(3) show "(Graph (DependencyRefNotFound i r) \<in> set a) = (ref_key r \<notin> refs)"
      by simp
  next
    assume h: "map_of dep ''dependsOn'' = Some (JArr es) \<and> j < length es"
    with p(2) have "for_enum (depends_on_check refs i) 0 es = Inr a2"
      by (simp add: for_field_def)
    from depends_on_members[OF this, of i j "es ! j"] h
    have "(Graph (DependsOnNotFound i j (es ! j)) \<in> set a2) = (ref_key (es ! j) \<notin> refs)"
      by simp
    with r2 p(3) show "(Graph (DependsOnNotFound i j (es ! j)) \<in> set a) = (ref_key (es ! j) \<notin> refs)"
      by simp
  qed
qed


lemma dependencies_loop:
  assumes "dependencies_level d refs = Inr n" "i < length (top_level d ''dependencies'')"
  shows "for_enum (dependency_check refs) 0 (top_level d ''dependencies'') = Inr n"
proof -
  from assms(2) obtain kvs xs where d: "d = JObj kvs" "map_of kvs ''dependencies'' = Some (JArr xs)"
    by (cases d) (auto simp: top_level_def split: option.splits json.splits)
  with assms(1) show ?thesis
    by (simp add: dependencies_level_def for_field_def top_level_def)
qed


lemma tracked_only_timestamp:
  assumes "filter tracked xs = (if c then [Doc InvalidTimestamp] else [])" "dependency_issue x"
  shows "x \<notin> set xs"
proof
  assume "x \<in> set xs"
  with assms(2) have "x \<in> set (filter tracked xs)" by (simp add: tracked_iff)
  with assms show False by (auto split: if_splits)
qed

text \<open>The stages of a run that returns, seen through the tracked diagnostics: the
  identifiers collected before the dependencies are checked, and where the tracked
  diagnostics come from.\<close>

lemma run_tracked:
  assumes run: "validate_complete_cyclonedx_schema lib d version = Inr found"
  shows "\<exists>early n6 late.
           dependencies_level d (collected_refs d) = Inr n6 \<and>
           found = early @ n6 @ late \<and>
           filter tracked early = (if bad_timestamp lib d then [Doc InvalidTimestamp] else []) \<and>
           filter tracked late = []"
proof -
  from run_stages[OF run] obtain n1 n2 s3 s4 s5 n6 n7 n8 n9 where
    n1: "document_level d version = Inr n1" and n2: "metadata_level lib d version = Inr n2"
    and c: "components_level lib version \<lparr>data = d, issues = n1 @ n2, bom_refs = {}\<rparr> = Inr s3"
    and m: "metadata_bom_ref s3 = Inr s4" and sv: "services_level lib s4 = Inr s5"
    and dd: "data s3 = d" "data s4 = d"
    and n6: "dependencies_level d (bom_refs s5) = Inr n6"
    and n7: "compositions_level d = Inr n7"
    and n8: "vulnerabilities_level d version = Inr n8"
    and n9: "external_references_level lib d = Inr n9"
    and f: "found = issues s5 @ n6 @ n7 @ n8 @ n9"
    by blast
  note ce = components_level_effect[OF c, simplified]
  note me = metadata_bom_ref_effect[OF m, unfolded dd]
  note se = services_level_effect[OF sv, unfolded dd]
  have refs: "bom_refs s5 = collected_refs d"
    using ce me se by (simp add: collected_refs_def image_Un Un_assoc)
  have "filter tracked n1 = []"
    using quiet_document[of d version] n1 by (simp add: quiet_filter)
  with metadata_tracked[OF n2]
  have "filter tracked (n1 @ n2) = (if bad_timestamp lib d then [Doc InvalidTimestamp] else [])"
    by simp
  with components_level_keeps[OF c]
  have "filter tracked (issues s3) = (if bad_timestamp lib d then [Doc InvalidTimestamp] else [])"
    by simp
  with me have "filter tracked (issues s4) = (if bad_timestamp lib d then [Doc InvalidTimestamp] else [])"
    by simp
  with services_level_keeps[OF sv]
  have q5: "filter tracked (issues s5) = (if bad_timestamp lib d then [Doc InvalidTimestamp] else [])"
    by simp
  have "filter tracked n7 = []" "filter tracked n8 = []" "filter tracked n9 = []"
    using quiet_compositions[of d] n7 quiet_vulnerabilities[of d version] n8
      quiet_external_references[of lib d] n9
    by (simp_all add: quiet_filter)
  then have "filter tracked (n7 @ n8 @ n9) = []" by simp
  with n6 refs f q5 show ?thesis by (metis append_assoc)
qed

lemma forward_ref_run:
  "validate_complete_cyclonedx_schema example_library forward_ref_document ''1.3'' =
     Inr [Graph (DependsOnNotFound 0 1 (JStr ''missing''))]"
  by (simp add: forward_ref_document_def run_defs show_nat_1 validate_service_structure_def
        dependency_check_def depends_on_check_def)

lemma invalid_timestamp_reported:
  assumes "validate_complete_cyclonedx_schema lib d version = Inr found"
  shows "(Doc InvalidTimestamp \<in> set found) = bad_timestamp lib d"
proof -
  from run_tracked[OF assms] obtain early n6 late where
    n6: "dependencies_level d (collected_refs d) = Inr n6"
    and f: "found = early @ n6 @ late"
    and e: "filter tracked early = (if bad_timestamp lib d then [Doc InvalidTimestamp] else [])"
    and l: "filter tracked late = []"
    by blast
  have a: "Doc InvalidTimestamp \<notin> set n6"
    using quiet_dependencies[of d "collected_refs d"] n6 by (auto dest: quiet_member)
  have b: "Doc InvalidTimestamp \<notin> set late"
    using l by (auto simp: filter_empty_conv)
  have "(Doc InvalidTimestamp \<in> set early) = (Doc InvalidTimestamp \<in> set (filter tracked early))"
    by simp
  also have "\<dots> = bad_timestamp lib d" unfolding e by simp
  finally show ?thesis using a b f by simp
qed

lemma unparsed_timestamp_run:
  "validate_complete_cyclonedx_schema example_library unparsed_timestamp_document ''1.3''
     = Inr [Doc InvalidTimestamp]"
  by (simp add: unparsed_timestamp_document_def run_defs timestamp_check_def example_library_def
        replace_Z_def documented_isoformat_def parse_isoformat_date_def parse_digits_def digit_val_def)

subsection \<open>Hash objects\<close>

text \<open>
  Claim C5. For the algorithm MD5 the table value is 32. The content below has 33
  characters, 32 hexadecimal digits and a final newline, so its length differs from the
  table value; the validator yields no diagnostic for it, where the claim asks for
  exactly one error. The pattern \<^verbatim>\<open>^[a-fA-F0-9]{32}$\<close> ends in \<^verbatim>\<open>$\<close>, which in Python
  also matches just before a final newline.
\<close>

theorem md5_content_with_newline_accepted:
  "length (''d41d8cd98f00b204e9800998ecf8427e'' @ [CHR 0x0A]) = 33 \<and>
   validate_hash_object
     (JObj [(''alg'', JStr ''MD5''),
            (''content'', JStr (''d41d8cd98f00b204e9800998ecf8427e'' @ [CHR 0x0A]))])
     ''components[0].hashes[0]'' = Inr []"
  by (simp add: validate_hash_object_def valid_algorithms_def patterns_def hex_pattern_def
        is_hex_digit_def)

text \<open>
  Claim C10. A hash object that lacks \<^verbatim>\<open>alg\<close> or \<^verbatim>\<open>content\<close> yields exactly the
  one combined missing-fields diagnostic and nothing else; one whose algorithm is outside
  the valid set yields exactly the invalid-algorithm diagnostic whatever its content is;
  and no hash object ever yields more than one diagnostic.
\<close>

theorem hash_object_single_diagnostic:
  "(map_of kvs ''alg'' = None \<or> map_of kvs ''content'' = None \<longrightarrow>
      validate_hash_object (JObj kvs) path = Inr [Field (HashMissingFields path)]) \<and>
   (map_of kvs ''alg'' = Some alg \<and> map_of kvs ''content'' = Some content \<and>
    alg \<notin> set (map JStr valid_algorithms) \<longrightarrow>
      validate_hash_object (JObj kvs) path = Inr [Field (InvalidAlgorithm path alg)]) \<and>
   (validate_hash_object h path = Inr found \<longrightarrow> length found \<le> 1)"
  using hash_missing hash_invalid_alg hash_le1 by blast

theorem hash_object_single_diagnostic_witness:
  "validate_hash_object (JObj [(''content'', JStr ''abc'')]) ''p'' = Inr [Field (HashMissingFields ''p'')] \<and>
   validate_hash_object (JObj [(''alg'', JInt 7), (''content'', JInt 1)]) ''p''
     = Inr [Field (InvalidAlgorithm ''p'' (JInt 7))] \<and>
   length [Field (HashMissingFields ''p'')] \<le> 1"
proof -
  have a: "JInt 7 \<notin> set (map JStr valid_algorithms)" by auto
  show ?thesis
    using hash_object_single_diagnostic
            [of "[(''content'', JStr ''abc'')]" "''p''" "JInt 7" "JInt 1"
                "JObj [(''content'', JStr ''abc'')]" "[Field (HashMissingFields ''p'')]"]
          hash_object_single_diagnostic
            [of "[(''alg'', JInt 7), (''content'', JInt 1)]" "''p''" "JInt 7" "JInt 1"
                "JObj [(''content'', JStr ''abc'')]" "[Field (HashMissingFields ''p'')]"]
          a
    by simp
qed

subsection \<open>License choices\<close>

text \<open>
  Claim C6. A license choice with both a license object and an expression string yields
  the cannot-have-both diagnostic; one with neither yields the must-have-either
  diagnostic; one with exactly one of the two yields neither of these two diagnostics.
\<close>

theorem license_choice_exactly_one:
  "(map_of kvs ''license'' = Some (JObj lic) \<and> map_of kvs ''expression'' = Some (JStr e) \<longrightarrow>
      (\<exists>found. validate_license_choice (JObj kvs) path = Inr found \<and>
         Field (LicenseBoth path) \<in> set found)) \<and>
   (map_of kvs ''license'' = None \<and> map_of kvs ''expression'' = None \<longrightarrow>
      validate_license_choice (JObj kvs) path = Inr [Field (LicenseNeither path)]) \<and>
   ((map_of kvs ''license'' = Some (JObj lic) \<and> map_of kvs ''expression'' = None) \<or>
    (map_of kvs ''license'' = None \<and> map_of kvs ''expression'' = Some (JStr e)) \<longrightarrow>
      (\<exists>found. validate_license_choice (JObj kvs) path = Inr found \<and>
         Field (LicenseBoth path) \<notin> set found \<and> Field (LicenseNeither path) \<notin> set found))"
  by (auto simp: validate_license_choice_def)

theorem license_choice_exactly_one_witness:
  "(\<exists>found. validate_license_choice
       (JObj [(''license'', JObj [(''id'', JStr ''MIT'')]), (''expression'', JStr ''MIT'')]) ''p'' = Inr found \<and>
         Field (LicenseBoth ''p'') \<in> set found) \<and>
   validate_license_choice (JObj []) ''p'' = Inr [Field (LicenseNeither ''p'')] \<and>
   (\<exists>found. validate_license_choice (JObj [(''expression'', JStr ''MIT'')]) ''p'' = Inr found \<and>
         Field (LicenseBoth ''p'') \<notin> set found \<and> Field (LicenseNeither ''p'') \<notin> set found)"
  using license_choice_exactly_one
          [of "[(''license'', JObj [(''id'', JStr ''MIT'')]), (''expression'', JStr ''MIT'')]"
              "[(''id'', JStr ''MIT'')]" "''MIT''" "''p''"]
        license_choice_exactly_one [of "[]" "[]" "''MIT''" "''p''"]
        license_choice_exactly_one [of "[(''expression'', JStr ''MIT'')]" "[]" "''MIT''" "''p''"]
  by simp

subsection \<open>The first concrete scenario\<close>

text \<open>
  Claim C4, as amended. Validating the scenario document against version 1.3 yields
  exactly two diagnostics, in this order: the metadata component lacks the required
  \<^verbatim>\<open>version\<close> field, and so does \<^verbatim>\<open>components[0]\<close> (the component lib1).
\<close>

theorem scenario_two_errors:
  "validate_complete_cyclonedx_schema lib scenario_document ''1.3'' =
     Inr [Comp (MissingVersionField ''metadata.component''),
          Comp (MissingVersionField ''components[0]'')]"
  by (simp add: scenario_document_def run_defs)

text \<open>The claim as stated fails: the result is not the single diagnostic about lib1.\<close>

theorem scenario_not_one_error:
  "validate_complete_cyclonedx_schema example_library scenario_document ''1.3''
     \<noteq> Inr [Comp (MissingVersionField ''components[0]'')]"
  by (simp add: scenario_document_def run_defs)

subsection \<open>Versions outside 1.3 to 1.6\<close>

text \<open>
  Claim C3, as amended. There is no unsupported-version diagnostic. For every version
  string, recognized or not, the version-dependent checks are chosen by comparing the
  string with \<^verbatim>\<open>"1.4"\<close>: the minimal document with the three required fields yields
  exactly the missing-\<^verbatim>\<open>$schema\<close> diagnostic of the 1.4+ rule when the version is at
  least \<^verbatim>\<open>"1.4"\<close> in string order, and no diagnostic otherwise.
\<close>

theorem unrecognized_version_falls_back:
  "validate_complete_cyclonedx_schema lib (minimal_document version) version =
     Inr (if str_le ''1.4'' version then [Doc (MissingSchema version)] else [])"
  by (simp add: minimal_document_def run_defs)

text \<open>The claim as stated fails: a document of the unknown version 9.9 that follows the
  1.4+ rule for \<^verbatim>\<open>$schema\<close> is accepted without any diagnostic.\<close>

theorem version_9_9_accepted:
  "validate_complete_cyclonedx_schema example_library
     (JObj [(''bomFormat'', JStr ''CycloneDX''), (''specVersion'', JStr ''9.9''), (''version'', JInt 1),
            (''$schema'', JStr ''http://cyclonedx.org/schema/bom-9.9.schema.json'')]) ''9.9'' = Inr []"
  by (simp add: run_defs schema_uri_def)

subsection \<open>Exceptions\<close>

text \<open>
  Claim C8. The validator is meant to report bad data as diagnostics, and it catches the
  \<^verbatim>\<open>ValueError\<close> of a timestamp that does not parse. A timestamp that is a number has
  no \<^verbatim>\<open>replace\<close> method: the run ends with \<^verbatim>\<open>AttributeError\<close> and returns nothing.
\<close>

theorem numeric_timestamp_raises:
  "validate_complete_cyclonedx_schema example_library
     (JObj [(''bomFormat'', JStr ''CycloneDX''), (''specVersion'', JStr ''1.3''), (''version'', JInt 1),
            (''metadata'', JObj [(''timestamp'', JInt 1700000000)])]) ''1.3'' = Inl AttributeError"
  by (simp add: run_defs timestamp_check_def)


subsection \<open>Timestamps\<close>

text \<open>
  Claim C7, as amended. The timestamp check accepts a string exactly when the library's
  \<^verbatim>\<open>datetime.fromisoformat\<close> parses it after every \<^verbatim>\<open>Z\<close> has been replaced by
  \<^verbatim>\<open>+00:00\<close>, and rejects it with the diagnostic otherwise; a run of the validator
  that returns reports \<^verbatim>\<open>Invalid timestamp format\<close> exactly when the timestamp of the
  metadata is a string that the library does not parse after that replacement. The check
  asks for no timezone designator of its own: when the library parses the plain notations
  \<^verbatim>\<open>YYYY-MM-DDTHH:MM:SS\<close> and \<^verbatim>\<open>YYYY-MM-DDTHH:MM:SS+HH:MM\<close>, a timestamp in range is
  accepted without a designator, with the suffix \<^verbatim>\<open>Z\<close>, and with an offset.
\<close>

theorem timestamp_check_follows_parser:
  "timestamp_check lib (JStr ts) bad =
     Inr (if fromisoformat lib (replace_Z ts) then [] else [bad]) \<and>
   (validate_complete_cyclonedx_schema lib doc version = Inr found \<longrightarrow>
      (Doc InvalidTimestamp \<in> set found) = bad_timestamp lib doc) \<and>
   (parses_plain_timestamps lib \<and> plain_range y m d h mi s \<and> zh < 24 \<and> zm < 60 \<longrightarrow>
      timestamp_check lib (JStr (iso_date_time y m d h mi s)) bad = Inr [] \<and>
      timestamp_check lib (JStr (iso_date_time y m d h mi s @ ''Z'')) bad = Inr [] \<and>
      timestamp_check lib (JStr (iso_date_time y m d h mi s @ utc_offset west zh zm)) bad = Inr [])"
proof (intro conjI, goal_cases)
  case 1
  show ?case
    by (simp add: timestamp_check_def)
next
  case 2
  show ?case
    using invalid_timestamp_reported by blast
next
  case 3
  show ?case
  proof (rule impI)
  assume a: "parses_plain_timestamps lib \<and> plain_range y m d h mi s \<and> zh < 24 \<and> zm < 60"
  then have r: "plain_range y m d h mi s" and z: "zh < 24" "zm < 60" and l: "parses_plain_timestamps lib"
    by simp_all
  from r have b: "y \<le> 9999" "m \<le> 12" "d \<le> days_in_month y m" "h < 24" "mi < 60" "s < 60"
    by (simp_all add: plain_range_def)
  have dl: "d \<le> 31" using b days_in_month_le[of y m] by simp
  have nz: "CHR ''Z'' \<notin> set (iso_date_time y m d h mi s)"
    using iso_date_time_no_Z b dl by simp
  have zero: "''+00:00'' = utc_offset False 0 0"
    by (simp add: utc_offset_def two_digits_def digit_char_simps)
  from l r z have p0: "fromisoformat lib (iso_date_time y m d h mi s)"
    and p2: "fromisoformat lib (iso_date_time y m d h mi s @ utc_offset west zh zm)"
    unfolding parses_plain_timestamps_def by blast+
  from l r have p1: "fromisoformat lib (iso_date_time y m d h mi s @ ''+00:00'')"
    unfolding zero parses_plain_timestamps_def by simp
  have "zh < 100" "zm < 100" using z by simp_all
  then have "CHR ''Z'' \<notin> set (utc_offset west zh zm)"
    using two_digits_no_Z[of zh] two_digits_no_Z[of zm]
    by (simp add: utc_offset_def)
  with nz have nz2: "CHR ''Z'' \<notin> set (iso_date_time y m d h mi s @ utc_offset west zh zm)"
    by simp
  have e: "replace_Z [] = []" "replace_Z ''Z'' = ''+00:00''"
    by (simp_all add: replace_Z_def)
  have r0: "replace_Z (iso_date_time y m d h mi s) = iso_date_time y m d h mi s"
    using replace_no_Z[OF nz, of "[]"] e by simp
  have r1: "replace_Z (iso_date_time y m d h mi s @ ''Z'') = iso_date_time y m d h mi s @ ''+00:00''"
    using replace_no_Z[OF nz, of "''Z''"] e by simp
  have r2: "replace_Z (iso_date_time y m d h mi s @ utc_offset west zh zm)
              = iso_date_time y m d h mi s @ utc_offset west zh zm"
    using replace_no_Z[OF nz2, of "[]"] e by simp
  show "timestamp_check lib (JStr (iso_date_time y m d h mi s)) bad = Inr [] \<and>
      timestamp_check lib (JStr (iso_date_time y m d h mi s @ ''Z'')) bad = Inr [] \<and>
      timestamp_check lib (JStr (iso_date_time y m d h mi s @ utc_offset west zh zm)) bad = Inr []"
    by (simp add: timestamp_check_def r0 r1 r2 p0 p1 p2)
  qed
qed

theorem timestamp_check_follows_parser_witness:
  "timestamp_check example_library (JStr ''not a date'') (Doc InvalidTimestamp)
     = Inr [Doc InvalidTimestamp] \<and>
   timestamp_check example_library (JStr ''2024-02-29T23:59:59'') (Doc InvalidTimestamp) = Inr [] \<and>
   timestamp_check example_library (JStr ''2024-02-29T23:59:59Z'') (Doc InvalidTimestamp) = Inr [] \<and>
   timestamp_check example_library (JStr ''2024-02-29T23:59:59-05:30'') (Doc InvalidTimestamp) = Inr [] \<and>
   validate_complete_cyclonedx_schema example_library unparsed_timestamp_document ''1.3''
     = Inr [Doc InvalidTimestamp] \<and>
   bad_timestamp example_library unparsed_timestamp_document"
proof -
  have a: "iso_date_time 2024 2 29 23 59 59 = ''2024-02-29T23:59:59''"
    by code_simp
  have b: "utc_offset True 5 30 = ''-05:30''"
    by code_simp
  have c: "plain_range 2024 2 29 23 59 59"
    by code_simp
  have n: "\<not> fromisoformat example_library (replace_Z ''not a date'')"
    by (simp add: example_library_def replace_Z_def documented_isoformat_def
          parse_isoformat_date_def parse_digits_def digit_val_def)
  show ?thesis
    using timestamp_check_follows_parser
            [of example_library "''not a date''" "Doc InvalidTimestamp" unparsed_timestamp_document
                "''1.3''" "[Doc InvalidTimestamp]" 2024 2 29 23 59 59 5 30 True]
          example_library_parses_plain c n unparsed_timestamp_run
    unfolding a b by simp
qed

text \<open>The claim C7 as stated fails: a timestamp without any timezone designator is
  accepted, the run yields no diagnostic.\<close>

theorem naive_timestamp_accepted:
  "validate_complete_cyclonedx_schema example_library
     (JObj [(''bomFormat'', JStr ''CycloneDX''), (''specVersion'', JStr ''1.3''), (''version'', JInt 1),
            (''metadata'', JObj [(''timestamp'', JStr ''2024-01-01T00:00:00'')])]) ''1.3'' = Inr []"
  by (simp add: run_defs timestamp_check_def example_library_def replace_Z_def
        documented_isoformat_def parse_isoformat_date_def
        parse_isoformat_time_def parse_hh_mm_ss_ff_def parse_digits_def digit_val_def
        days_in_month_def is_sign_def)


subsection \<open>Duplicate identifiers\<close>

text \<open>
  Claim C1, as amended. On every document that the validator returns from: two top-level
  components that carry the same bom-ref yield a duplicate-bom-ref diagnostic, and a
  service whose bom-ref is also carried by an earlier service, by a top-level component
  or by the metadata component yields a duplicate-service-bom-ref diagnostic. The
  bom-refs of nested components are not collected.
\<close>

theorem duplicates_among_collected_identifiers:
  assumes "validate_complete_cyclonedx_schema lib d version = Inr found"
  shows "(i < j \<and> j < length (top_level d ''components'') \<and>
          entity_ref (top_level d ''components'' ! i) = Some r \<and>
          entity_ref (top_level d ''components'' ! j) = Some r
            \<longrightarrow> Graph (DuplicateBomRef r) \<in> set found) \<and>
         (j < length (top_level d ''services'') \<and>
          entity_ref (top_level d ''services'' ! j) = Some r \<and>
          ((i < j \<and> entity_ref (top_level d ''services'' ! i) = Some r) \<or>
           (i < length (top_level d ''components'') \<and>
            entity_ref (top_level d ''components'' ! i) = Some r) \<or>
           metadata_ref d = Some r)
            \<longrightarrow> Graph (DuplicateServiceBomRef r) \<in> set found)"
proof -
  from run_stages[OF assms] obtain n1 n2 s3 s4 s5 n6 n7 n8 n9 where
    c: "components_level lib version \<lparr>data = d, issues = n1 @ n2, bom_refs = {}\<rparr> = Inr s3"
    and m: "metadata_bom_ref s3 = Inr s4" and sv: "services_level lib s4 = Inr s5"
    and d: "data s3 = d" "data s4 = d"
    and f: "found = issues s5 @ n6 @ n7 @ n8 @ n9"
    by blast
  note ce = components_level_effect[OF c, simplified]
  note me = metadata_bom_ref_effect[OF m, unfolded d]
  note se = services_level_effect[OF sv, unfolded d]
  have i34: "issues s4 = issues s3" using me by simp
  have r4: "bom_refs s4 = bom_refs s3 \<union> ref_key ` set_option (metadata_ref d)" using me by simp
  have sub: "set (issues s3) \<subseteq> set found" using se i34 f by auto
  have sub5: "set (issues s5) \<subseteq> set found" using f by auto
  show ?thesis
  proof (intro conjI impI)
    assume a: "i < j \<and> j < length (top_level d ''components'') \<and>
          entity_ref (top_level d ''components'' ! i) = Some r \<and>
          entity_ref (top_level d ''components'' ! j) = Some r"
    with ce have "Graph (DuplicateBomRef r) \<in> set (issues s3)" by blast
    with sub show "Graph (DuplicateBomRef r) \<in> set found" by blast
  next
    assume a: "j < length (top_level d ''services'') \<and>
          entity_ref (top_level d ''services'' ! j) = Some r \<and>
          ((i < j \<and> entity_ref (top_level d ''services'' ! i) = Some r) \<or>
           (i < length (top_level d ''components'') \<and>
            entity_ref (top_level d ''components'' ! i) = Some r) \<or>
           metadata_ref d = Some r)"
    have "ref_key r \<in> bom_refs s4 \<or> (\<exists>n<j. entity_ref (top_level d ''services'' ! n) = Some r)"
    proof -
      from a consider
        "i < j \<and> entity_ref (top_level d ''services'' ! i) = Some r"
        | "i < length (top_level d ''components'') \<and>
            entity_ref (top_level d ''components'' ! i) = Some r"
        | "metadata_ref d = Some r" by blast
      then show ?thesis
      proof cases
        case 1
        then show ?thesis by blast
      next
        case 2
        then have "top_level d ''components'' ! i \<in> set (top_level d ''components'')" by simp
        with 2 have "ref_key r \<in> bom_refs s3" using ce by force
        with r4 show ?thesis by simp
      next
        case 3
        with r4 show ?thesis by simp
      qed
    qed
    with a se have "Graph (DuplicateServiceBomRef r) \<in> set (issues s5)" by blast
    with sub5 show "Graph (DuplicateServiceBomRef r) \<in> set found" by blast
  qed
qed

theorem duplicates_among_collected_identifiers_witness:
  "validate_complete_cyclonedx_schema example_library shared_ref_document ''1.3'' =
     Inr [Graph (DuplicateBomRef (JStr ''x'')), Graph (DuplicateServiceBomRef (JStr ''x''))] \<and>
   Graph (DuplicateBomRef (JStr ''x'')) \<in>
     set [Graph (DuplicateBomRef (JStr ''x'')), Graph (DuplicateServiceBomRef (JStr ''x''))] \<and>
   Graph (DuplicateServiceBomRef (JStr ''x'')) \<in>
     set [Graph (DuplicateBomRef (JStr ''x'')), Graph (DuplicateServiceBomRef (JStr ''x''))]"
proof -
  have c: "top_level shared_ref_document ''components'' =
             [JObj [(''type'', JStr ''library''), (''name'', JStr ''a''),
                    (''version'', JStr ''1''), (''bom-ref'', JStr ''x'')],
              JObj [(''type'', JStr ''library''), (''name'', JStr ''b''),
                    (''version'', JStr ''1''), (''bom-ref'', JStr ''x'')]]"
    and s: "top_level shared_ref_document ''services'' =
             [JObj [(''name'', JStr ''s''), (''bom-ref'', JStr ''x'')]]"
    by (simp_all add: top_level_def shared_ref_document_def)
  show ?thesis
    using duplicates_among_collected_identifiers[OF shared_ref_run, of 0 1 "JStr ''x''"]
          duplicates_among_collected_identifiers[OF shared_ref_run, of 0 0 "JStr ''x''"]
          shared_ref_run
    by (simp add: c s entity_ref_def)
qed

text \<open>The claim C1 as stated fails: a component and the component nested in it carry the
  same bom-ref, and the run yields no diagnostic.\<close>

theorem nested_duplicate_not_reported:
  "validate_complete_cyclonedx_schema example_library nested_ref_document ''1.3'' = Inr []"
  by (simp add: nested_ref_document_def run_defs vcs_obj)

subsection \<open>Dangling references\<close>

text \<open>
  Claim C2, as amended. On every document that the validator returns from, and for every
  dependency of the document that is an object: the diagnostic that its \<^verbatim>\<open>ref\<close> is not
  found is reported exactly when the \<^verbatim>\<open>ref\<close> is none of the bom-refs collected from
  the top-level components, the metadata component and the services, and for each entry
  of its \<^verbatim>\<open>dependsOn\<close> list the not-found diagnostic is reported exactly when the entry
  is none of these bom-refs. All of them are collected before any dependency is checked,
  so the order of declaration plays no part.
\<close>

theorem dangling_references_reported:
  assumes run: "validate_complete_cyclonedx_schema lib d version = Inr found"
    and i: "i < length (top_level d ''dependencies'')"
    and dep: "top_level d ''dependencies'' ! i = JObj dep"
  shows "(map_of dep ''ref'' = Some r \<longrightarrow>
            (Graph (DependencyRefNotFound i r) \<in> set found) = (ref_key r \<notin> collected_refs d)) \<and>
         (map_of dep ''dependsOn'' = Some (JArr es) \<and> j < length es \<longrightarrow>
            (Graph (DependsOnNotFound i j (es ! j)) \<in> set found)
              = (ref_key (es ! j) \<notin> collected_refs d))"
proof -
  from run_tracked[OF run] obtain early n6 late where
    n6: "dependencies_level d (collected_refs d) = Inr n6"
    and f: "found = early @ n6 @ late"
    and e: "filter tracked early = (if bad_timestamp lib d then [Doc InvalidTimestamp] else [])"
    and l: "filter tracked late = []"
    by blast
  have mem: "(x \<in> set found) = (x \<in> set n6)" if "dependency_issue x" for x
  proof -
    from that have "tracked x" by (simp add: tracked_iff)
    with l have "x \<notin> set late" by (auto simp: filter_empty_conv)
    with tracked_only_timestamp[OF e that] f show ?thesis by simp
  qed
  note loop = dependencies_loop[OF n6 i]
  from for_enum_each[OF loop i] dep obtain a where
    a: "dependency_check (collected_refs d) i (JObj dep) = Inr a" "set a \<subseteq> set n6" by auto
  have from_a: "x \<in> set a"
    if "x \<in> set n6" "x = Graph (DependencyRefNotFound i r') \<or> x = Graph (DependsOnNotFound i j' e')"
    for x r' j' e'
  proof -
    from for_enum_origin[OF loop that(1)] obtain k a' where
      k: "k < length (top_level d ''dependencies'')"
         "dependency_check (collected_refs d) (0 + k) (top_level d ''dependencies'' ! k) = Inr a'"
         "x \<in> set a'" by blast
    from dependency_check_index[OF k(2), of i r' j' e'] k(3) that(2) have "k = i" by auto
    with k(2,3) a(1) dep show ?thesis by simp
  qed
  have in_a: "(x \<in> set found) = (x \<in> set a)"
    if "x = Graph (DependencyRefNotFound i r') \<or> x = Graph (DependsOnNotFound i j' e')"
    for x r' j' e'
  proof -
    from that have "dependency_issue x" by auto
    from mem[OF this] from_a[OF _ that] a(2) show ?thesis by auto
  qed
  from dependency_check_object[OF a(1), of r es j]
    in_a[of "Graph (DependencyRefNotFound i r)" r]
    in_a[of "Graph (DependsOnNotFound i j (es ! j))" _ j "es ! j"]
  show ?thesis by simp
qed

theorem dangling_references_reported_witness:
  "validate_complete_cyclonedx_schema example_library forward_ref_document ''1.3'' =
     Inr [Graph (DependsOnNotFound 0 1 (JStr ''missing''))] \<and>
   collected_refs forward_ref_document = {JStr ''a'', JStr ''svc''} \<and>
   Graph (DependencyRefNotFound 0 (JStr ''a'')) \<notin> set [Graph (DependsOnNotFound 0 1 (JStr ''missing''))] \<and>
   Graph (DependsOnNotFound 0 0 (JStr ''svc'')) \<notin> set [Graph (DependsOnNotFound 0 1 (JStr ''missing''))] \<and>
   Graph (DependsOnNotFound 0 1 (JStr ''missing'')) \<in> set [Graph (DependsOnNotFound 0 1 (JStr ''missing''))]"
proof -
  have t: "top_level forward_ref_document ''dependencies'' =
             [JObj [(''ref'', JStr ''a''), (''dependsOn'', JArr [JStr ''svc'', JStr ''missing''])]]"
    by (simp add: top_level_def forward_ref_document_def)
  have l: "0 < length (top_level forward_ref_document ''dependencies'')"
    and e: "top_level forward_ref_document ''dependencies'' ! 0 =
              JObj [(''ref'', JStr ''a''), (''dependsOn'', JArr [JStr ''svc'', JStr ''missing''])]"
    by (simp_all add: t)
  have c: "collected_refs forward_ref_document = {JStr ''a'', JStr ''svc''}"
    by (auto simp: collected_refs_def top_level_def forward_ref_document_def entity_ref_def
          metadata_ref_def metadata_component_def)
  show ?thesis
    using dangling_references_reported[OF forward_ref_run l e,
            of "JStr ''a''" "[JStr ''svc'', JStr ''missing'']" 0]
          dangling_references_reported[OF forward_ref_run l e,
            of "JStr ''a''" "[JStr ''svc'', JStr ''missing'']" 1]
          forward_ref_run c
    by simp
qed

text \<open>The claim C2 as stated fails: the bom-refs of nested components are not
  collected, so a \<^verbatim>\<open>dependsOn\<close> entry that names the bom-ref of a nested component,
  declared in the document, is reported as not found.\<close>

theorem nested_identifier_reported_missing:
  "validate_complete_cyclonedx_schema example_library nested_dependency_document ''1.3'' =
     Inr [Graph (DependsOnNotFound 0 0 (JStr ''n''))]"
  by (simp add: nested_dependency_document_def run_defs vcs_obj
        dependency_check_def depends_on_check_def)

end
